theory Spec2Isabelle
  imports Complex_Main
begin

section \<open>Temperature units (units.py)\<close>

text \<open>
  The keys of the unit dictionaries of \<^verbatim>\<open>units.py\<close>: \<^verbatim>\<open>'K'\<close>, \<^verbatim>\<open>'C'\<close>,
  \<^verbatim>\<open>'R'\<close>, \<^verbatim>\<open>'F'\<close> for temperatures and \<^verbatim>\<open>'V'\<close>, \<^verbatim>\<open>'mV'\<close>, \<^verbatim>\<open>'uV'\<close> for
  voltages.
\<close>

datatype tunit = Kelvin | Celsius | Rankine | Fahrenheit

datatype vunit = Volt | MilliVolt | MicroVolt

text \<open>
  A conversion matrix is the 2x2 array \<^verbatim>\<open>[[mul, add], [0, 1]]\<close>; the code only ever reads
  its first row, as \<^verbatim>\<open>mul, add = mat[0]\<close>. It is kept as a pair of rows.
\<close>

type_synonym mat = "(real \<times> real) \<times> (real \<times> real)"

definition row0 :: "mat \<Rightarrow> real \<times> real" where
  "row0 m = fst m"

text \<open>\<^verbatim>\<open>Tunits_mat['C']['from']\<close>: from the unit of the key to degrees Celsius.\<close>

fun Tunits_mat_C_from :: "tunit \<Rightarrow> mat" where
  "Tunits_mat_C_from Kelvin = ((1, - 273.15), (0, 1))"
| "Tunits_mat_C_from Celsius = ((1, 0), (0, 1))"
| "Tunits_mat_C_from Rankine = ((5 / 9, - 273.15), (0, 1))"
| "Tunits_mat_C_from Fahrenheit = ((5 / 9, - 32 * 5 / 9), (0, 1))"

text \<open>\<^verbatim>\<open>Tunits_mat['C']['to']\<close>: from degrees Celsius to the unit of the key.\<close>

fun Tunits_mat_C_to :: "tunit \<Rightarrow> mat" where
  "Tunits_mat_C_to Kelvin = ((1, 273.15), (0, 1))"
| "Tunits_mat_C_to Celsius = ((1, 0), (0, 1))"
| "Tunits_mat_C_to Rankine = ((9 / 5, 491.67), (0, 1))"
| "Tunits_mat_C_to Fahrenheit = ((9 / 5, 32), (0, 1))"

text \<open>
  The statement pair \<^verbatim>\<open>mul, add = mat[0]; T = T*mul + add\<close>, which the facade repeats
  for every conversion.
\<close>

definition affine :: "mat \<Rightarrow> real \<Rightarrow> real" where
  "affine m x = (case row0 m of (mul, add) \<Rightarrow> x * mul + add)"

section \<open>Errors and array values\<close>

text \<open>
  Every \<^verbatim>\<open>raise\<close> of the package and every exception it can receive from NumPy and SciPy
  is a constructor. In the Python all but \<^verbatim>\<open>IndexError\<close>, \<^verbatim>\<open>NameError\<close>, \<^verbatim>\<open>ImportError\<close> and
  \<^verbatim>\<open>SolverError\<close> are \<^verbatim>\<open>ValueError\<close>s, told apart by their arguments.
\<close>

datatype error =
    IndexError
  | NotAscending
  | NotContiguous
  | InvalidOutOfRange string
  | NegativeDerivative
  | UnsupportedDerivative
  | OutOfRange "real list option" "real list option"
  | InvalidChoice
  | UnsupportedUnits
  | NameError string
  | ImportError
  | BareValueError
  | SameSigns
  | SolverError string
  | VoltageNotInRange
  | DidNotConverge

text \<open>
  \<^item> \<open>IndexError\<close>: \<^verbatim>\<open>table[0]\<close> or \<^verbatim>\<open>table[-1]\<close> on an empty table;
  \<^item> \<open>NotAscending\<close>: "Temperature limits must be in ascending order.";
  \<^item> \<open>NotContiguous\<close>: "Pieces' limits must be contiguous.";
  \<^item> \<open>InvalidOutOfRange s\<close>: ("invalid out_of_range parameter", s);
  \<^item> \<open>NegativeDerivative\<close>: raised by \<^verbatim>\<open>numpy.polyder\<close> for an order below zero;
  \<^item> \<open>UnsupportedDerivative\<close>: the message that derivatives > 3 are "not supported for
    this type";
  \<^item> \<open>OutOfRange u o\<close>: ("Temperatures (..) under or over range:", u, o);
  \<^item> \<open>InvalidChoice\<close>: raised by \<^verbatim>\<open>numpy.choose\<close> for an index outside the choices;
  \<^item> \<open>UnsupportedUnits\<close>: "Only mV <- deg C functions supported right now.";
  \<^item> \<open>NameError v\<close>: the name \<open>v\<close> is read before any assignment;
  \<^item> \<open>ImportError\<close>: "Inverse lookup requires scipy.optimize module. Please install SciPy.";
  \<^item> \<open>BareValueError\<close>: the \<^verbatim>\<open>raise ValueError\<close> of the residual check after Newton's method;
  \<^item> \<open>SameSigns\<close>: the \<^verbatim>\<open>ValueError\<close> of \<^verbatim>\<open>brentq\<close> whose only argument is
    "f(a) and f(b) must have different signs";
  \<^item> \<open>SolverError s\<close>: any other exception raised inside SciPy;
  \<^item> \<open>VoltageNotInRange\<close>: "Voltage not within in allowed range.";
  \<^item> \<open>DidNotConverge\<close>: "Did not converge within tolerance.".
\<close>

text \<open>
  Array elements are real numbers, or the not-a-number that the \<^verbatim>\<open>"nan"\<close> policy writes.
  Arithmetic with not-a-number gives not-a-number, and every comparison with it is false.
\<close>

datatype fval = Fin real | NaN

fun fadd :: "fval \<Rightarrow> fval \<Rightarrow> fval" where
  "fadd (Fin a) (Fin b) = Fin (a + b)"
| "fadd _ _ = NaN"

fun fsub :: "fval \<Rightarrow> fval \<Rightarrow> fval" where
  "fsub (Fin a) (Fin b) = Fin (a - b)"
| "fsub _ _ = NaN"

fun fmul :: "fval \<Rightarrow> fval \<Rightarrow> fval" where
  "fmul (Fin a) (Fin b) = Fin (a * b)"
| "fmul _ _ = NaN"

fun fabs :: "fval \<Rightarrow> fval" where
  "fabs (Fin a) = Fin \<bar>a\<bar>"
| "fabs NaN = NaN"

fun fgt :: "fval \<Rightarrow> real \<Rightarrow> bool" where
  "fgt (Fin a) b = (a > b)"
| "fgt NaN b = False"

fun fle :: "fval \<Rightarrow> real \<Rightarrow> bool" where
  "fle (Fin a) b = (a \<le> b)"
| "fle NaN b = False"

text \<open>
  An array is the list of its elements; a scalar argument is the array of one element
  (NumPy makes it a 0-d array, which every operation below treats as one element), and
  \<open>item\<close> reads the value of such a result.
\<close>

fun item :: "fval list \<Rightarrow> fval" where
  "item [] = NaN"
| "item (v # _) = v"

section \<open>NumPy functions used by the evaluator\<close>

text \<open>
  \<^verbatim>\<open>numpy.polyder(p, m)\<close>: \<^verbatim>\<open>n = len(p) - 1; y = p[:-1] * arange(n, 0, -1)\<close>, repeated
  \<open>m\<close> times; a negative \<open>m\<close> raises. Coefficients run from the highest power down.
\<close>

definition polyder_step :: "real list \<Rightarrow> real list" where
  "polyder_step p = map2 (\<lambda>c k. c * real k) (butlast p) (rev [1..<length p])"

fun polyder_iter :: "nat \<Rightarrow> real list \<Rightarrow> real list" where
  "polyder_iter 0 p = p"
| "polyder_iter (Suc m) p = polyder_iter m (polyder_step p)"

definition polyder :: "real list \<Rightarrow> int \<Rightarrow> error + real list" where
  "polyder p m = (if m < 0 then Inl NegativeDerivative else Inr (polyder_iter (nat m) p))"

text \<open>\<^verbatim>\<open>numpy.polyval(p, x)\<close>: \<^verbatim>\<open>y = 0; for pv in p: y = y * x + pv\<close>.\<close>

definition polyval :: "real list \<Rightarrow> real \<Rightarrow> real" where
  "polyval p x = foldl (\<lambda>y pv. y * x + pv) 0 p"

text \<open>\<^verbatim>\<open>numpy.extract(condition, arr)\<close>: the elements of \<open>arr\<close> where the condition holds.\<close>

definition np_extract :: "bool list \<Rightarrow> real list \<Rightarrow> real list" where
  "np_extract cond arr = map snd (filter fst (zip cond arr))"

text \<open>
  \<^verbatim>\<open>numpy.choose(a, choices)\<close>: element \<open>i\<close> of the result is element \<open>i\<close> of the choice
  numbered \<open>a[i]\<close>; an index outside the choices raises. A choice that is still the
  placeholder \<^verbatim>\<open>None\<close> has no elements to give; the evaluator overwrites both of its
  placeholders before it calls \<^verbatim>\<open>choose\<close>. NumPy's upper bound on the number of choices
  (32 in NumPy 1) is not modelled; the bundled tables have at most a few segments.
\<close>

definition np_choose :: "int list \<Rightarrow> fval list option list \<Rightarrow> error + fval list" where
  "np_choose a choices =
     (if list_ex (\<lambda>s. s < 0 \<or> int (length choices) \<le> s) a then Inl InvalidChoice
      else Inr (map (\<lambda>(i, s). case choices ! nat s of None \<Rightarrow> NaN | Some c \<Rightarrow> c ! i)
                  (zip [0..<length a] a)))"

section \<open>The piecewise function (function\_types.py)\<close>

text \<open>
  One segment of \<^verbatim>\<open>.table\<close>: \<^verbatim>\<open>(minimum T, maximum T, polynomial coefs array,
  exponential coefs list)\<close>, under the names the loops give the four components. The
  exponential coefficients are \<^verbatim>\<open>None\<close> or the three numbers of the Gaussian.
\<close>

record piece =
  tmin :: real
  tmax :: real
  coefs :: "real list"
  ec :: "(real \<times> real \<times> real) option"

record Polynomial_Gaussian_Piecewise_Function =
  table :: "piece list"
  Tunits :: tunit
  Vunits :: vunit
  source :: string
  calibration :: string

text \<open>The checking loop of \<^verbatim>\<open>__init__\<close>, with \<^verbatim>\<open>lastmax\<close> as its state.\<close>

fun check_table :: "real \<Rightarrow> piece list \<Rightarrow> error + unit" where
  "check_table lastmax [] = Inr ()"
| "check_table lastmax (p # ps) =
     (if \<not> tmin p \<le> tmax p then Inl NotAscending
      else if tmin p \<noteq> lastmax then Inl NotContiguous
      else check_table (tmax p) ps)"

text \<open>\<^verbatim>\<open>Polynomial_Gaussian_Piecewise_Function.__init__\<close>; \<^verbatim>\<open>table[0][0]\<close> raises on an empty table.\<close>

definition PGPF_init ::
  "piece list \<Rightarrow> tunit \<Rightarrow> vunit \<Rightarrow> string \<Rightarrow> string \<Rightarrow> error + Polynomial_Gaussian_Piecewise_Function"
where
  "PGPF_init tbl Tu Vu src cal =
     (case tbl of
        [] \<Rightarrow> Inl IndexError
      | p0 # _ \<Rightarrow>
          (case check_table (tmin p0) tbl of
             Inl e \<Rightarrow> Inl e
           | Inr _ \<Rightarrow>
               Inr \<lparr>table = tbl, Tunits = Tu, Vunits = Vu, source = src, calibration = cal\<rparr>))"

text \<open>The properties \<^verbatim>\<open>minT\<close> (\<^verbatim>\<open>table[0][0]\<close>) and \<^verbatim>\<open>maxT\<close> (\<^verbatim>\<open>table[-1][1]\<close>).\<close>

definition minT :: "Polynomial_Gaussian_Piecewise_Function \<Rightarrow> error + real" where
  "minT self = (case table self of [] \<Rightarrow> Inl IndexError | p # _ \<Rightarrow> Inr (tmin p))"

definition maxT :: "Polynomial_Gaussian_Piecewise_Function \<Rightarrow> error + real" where
  "maxT self = (case table self of [] \<Rightarrow> Inl IndexError | _ # _ \<Rightarrow> Inr (tmax (last (table self))))"

text \<open>The Gaussian \<^verbatim>\<open>ec[0] * np.exp(ec[1] * dT**2)\<close> with \<^verbatim>\<open>dT = T - ec[2]\<close>.\<close>

definition gauss :: "real \<Rightarrow> real \<Rightarrow> real \<Rightarrow> real \<Rightarrow> real" where
  "gauss a0 a1 a2 t = a0 * exp (a1 * (t - a2)\<^sup>2)"

text \<open>
  The body of the loop of \<^verbatim>\<open>__call__\<close> that computes \<^verbatim>\<open>emf\<close> for one segment, over the
  whole input array. Whether it raises depends on the derivative order and on the
  presence of the Gaussian only, not on the inputs.
\<close>

definition piece_emf :: "piece \<Rightarrow> int \<Rightarrow> real list \<Rightarrow> error + real list" where
  "piece_emf p derivative T =
     (case polyder (coefs p) derivative of
        Inl e \<Rightarrow> Inl e
      | Inr dc \<Rightarrow>
          (case ec p of
             None \<Rightarrow> Inr (map (polyval dc) T)
           | Some (a0, a1, a2) \<Rightarrow>
               if derivative = 0 then
                 Inr (map (\<lambda>t. polyval dc t + gauss a0 a1 a2 t) T)
               else if derivative = 1 then
                 Inr (map (\<lambda>t. polyval dc t + 2 * a1 * gauss a0 a1 a2 t * (t - a2)) T)
               else if derivative = 2 then
                 Inr (map (\<lambda>t. polyval dc t
                        + 2 * a1 * gauss a0 a1 a2 t * (2 * a1 * (t - a2)\<^sup>2 + 1)) T)
               else if derivative = 3 then
                 Inr (map (\<lambda>t. polyval dc t
                        + 4 * a1 * a1 * gauss a0 a1 a2 t * (t - a2) * (2 * a1 * (t - a2)\<^sup>2 + 3)) T)
               else Inl UnsupportedDerivative))"

text \<open>
  The loop of \<^verbatim>\<open>__call__\<close> over the table. Its state is the selector array and the list
  \<^verbatim>\<open>emf_choices\<close>; an exception in a segment ends the call.
\<close>

fun table_loop ::
  "piece list \<Rightarrow> int \<Rightarrow> real list \<Rightarrow> int list \<times> fval list option list
     \<Rightarrow> error + int list \<times> fval list option list"
where
  "table_loop [] derivative T st = Inr st"
| "table_loop (p # ps) derivative T (selector, emf_choices) =
     (case piece_emf p derivative T of
        Inl e \<Rightarrow> Inl e
      | Inr emf \<Rightarrow>
          table_loop ps derivative T
            (map2 (\<lambda>s t. s + (if t > tmax p then 1 else 0)) selector T,
             emf_choices @ [Some (map Fin emf)]))"

text \<open>\<^verbatim>\<open>Polynomial_Gaussian_Piecewise_Function.__call__\<close>.\<close>

definition PGPF_call ::
  "Polynomial_Gaussian_Piecewise_Function \<Rightarrow> real list \<Rightarrow> int \<Rightarrow> string \<Rightarrow> error + fval list"
where
  "PGPF_call self T derivative out_of_range =
     (if out_of_range \<notin> set [''raise'', ''nan'', ''extrapolate''] then
        Inl (InvalidOutOfRange out_of_range)
      else
        (case minT self of
           Inl e \<Rightarrow> Inl e
         | Inr tmin0 \<Rightarrow>
             (case table_loop (table self) derivative T
                     (map (\<lambda>t. if t \<ge> tmin0 then 1 else 0) T, [None]) of
                Inl e \<Rightarrow> Inl e
              | Inr (selector, choices) \<Rightarrow>
                  let c0 = choices @ [None];
                      emf_choices =
                        (if out_of_range = ''nan'' then
                           (let c1 = c0[0 := Some (map (\<lambda>t. NaN) T)]
                            in c1[length c1 - 1 := c1 ! 0])
                         else
                           (let c1 = c0[0 := c0 ! 1]
                            in c1[length c1 - 1 := c1 ! (length c1 - 2)]));
                      unders = map (\<lambda>s. s \<le> 0) selector;
                      overs = map (\<lambda>s. s > int (length (table self))) selector
                  in
                    if out_of_range = ''raise'' \<and> (list_ex id unders \<or> list_ex id overs) then
                      (let u_temps = np_extract unders T;
                           o_temps = np_extract overs T
                       in Inl (OutOfRange (if u_temps = [] then None else Some u_temps)
                                          (if o_temps = [] then None else Some o_temps)))
                    else np_choose selector emf_choices)))"

text \<open>A call on one temperature, and the value of its 0-d result.\<close>

definition PGPF_call1 ::
  "Polynomial_Gaussian_Piecewise_Function \<Rightarrow> real \<Rightarrow> int \<Rightarrow> string \<Rightarrow> error + fval"
where
  "PGPF_call1 self t derivative out_of_range =
     (case PGPF_call self [t] derivative out_of_range of
        Inl e \<Rightarrow> Inl e
      | Inr vs \<Rightarrow> Inr (item vs))"

section \<open>Inverse lookup\<close>

text \<open>
  \<^verbatim>\<open>scipy.optimize\<close> is not part of the package: its two root-finders are parameters.
  \<^verbatim>\<open>newton(func, x0, fprime, fprime2, tol)\<close> and \<^verbatim>\<open>brentq(f, a, b)\<close> receive the
  callables the package builds, and return a temperature or raise. The module is
  \<^verbatim>\<open>None\<close> when the import fails.
\<close>

type_synonym callable = "real \<Rightarrow> error + fval"

record optimize_module =
  newton :: "callable \<Rightarrow> real \<Rightarrow> callable \<Rightarrow> callable \<Rightarrow> real \<Rightarrow> error + real"
  brentq :: "callable \<Rightarrow> real \<Rightarrow> real \<Rightarrow> error + real"

text \<open>
  The three lambdas of \<^verbatim>\<open>inverse\<close>: \<^verbatim>\<open>fun0\<close> is the function minus the target, the
  other two are its first and second derivative, all under the \<^verbatim>\<open>"extrapolate"\<close> policy.
\<close>

definition fun0 :: "Polynomial_Gaussian_Piecewise_Function \<Rightarrow> fval \<Rightarrow> callable" where
  "fun0 self V = (\<lambda>T. case PGPF_call1 self T 0 ''extrapolate'' of
                         Inl e \<Rightarrow> Inl e
                       | Inr v \<Rightarrow> Inr (fsub v V))"

definition fun1 :: "Polynomial_Gaussian_Piecewise_Function \<Rightarrow> callable" where
  "fun1 self = (\<lambda>T. PGPF_call1 self T 1 ''extrapolate'')"

definition fun2 :: "Polynomial_Gaussian_Piecewise_Function \<Rightarrow> callable" where
  "fun2 self = (\<lambda>T. PGPF_call1 self T 2 ''extrapolate'')"

text \<open>
  The body of the outer \<^verbatim>\<open>try\<close>: Newton's method, then the check of its result with the
  default policy \<^verbatim>\<open>"raise"\<close>.
\<close>

definition newton_try ::
  "optimize_module \<Rightarrow> Polynomial_Gaussian_Piecewise_Function \<Rightarrow> fval \<Rightarrow> real \<Rightarrow> real
     \<Rightarrow> error + real"
where
  "newton_try optimize self V Tstart Vtol =
     (case newton optimize (fun0 self V) Tstart (fun1 self) (fun2 self) Vtol of
        Inl e \<Rightarrow> Inl e
      | Inr T \<Rightarrow>
          (case PGPF_call1 self T 0 ''raise'' of
             Inl e \<Rightarrow> Inl e
           | Inr v \<Rightarrow> if fgt (fabs (fsub v V)) Vtol then Inl BareValueError else Inr T))"

text \<open>
  The handler of the bare \<^verbatim>\<open>except\<close>: Brent's method between the ends of the range, the
  renaming of its sign error, and the check of its result under the \<^verbatim>\<open>"nan"\<close> policy.
\<close>

definition brentq_except ::
  "optimize_module \<Rightarrow> Polynomial_Gaussian_Piecewise_Function \<Rightarrow> fval \<Rightarrow> real \<Rightarrow> error + real"
where
  "brentq_except optimize self V Vtol =
     (case minT self of
        Inl e \<Rightarrow> Inl e
      | Inr a \<Rightarrow>
          (case maxT self of
             Inl e \<Rightarrow> Inl e
           | Inr b \<Rightarrow>
               (case brentq optimize (fun0 self V) a b of
                  Inl e \<Rightarrow> if e = SameSigns then Inl VoltageNotInRange else Inl e
                | Inr T \<Rightarrow>
                    (case PGPF_call1 self T 0 ''nan'' of
                       Inl e \<Rightarrow> Inl e
                     | Inr v \<Rightarrow>
                         if \<not> fle (fabs (fsub v V)) Vtol then Inl DidNotConverge
                         else Inr T))))"

text \<open>
  \<^verbatim>\<open>Polynomial_Gaussian_Piecewise_Function.inverse\<close>. \<open>scipy\<close> is what the import of
  \<^verbatim>\<open>scipy.optimize\<close> gives; \<open>Tstart\<close> is \<^verbatim>\<open>None\<close> or a temperature.
\<close>

definition PGPF_inverse ::
  "optimize_module option \<Rightarrow> Polynomial_Gaussian_Piecewise_Function \<Rightarrow> fval \<Rightarrow> real option
     \<Rightarrow> real \<Rightarrow> error + real"
where
  "PGPF_inverse scipy self V Tstart Vtol =
     (case scipy of
        None \<Rightarrow> Inl ImportError
      | Some optimize \<Rightarrow>
          (case (case Tstart of
                   Some t \<Rightarrow> Inr t
                 | None \<Rightarrow>
                     (case minT self of
                        Inl e \<Rightarrow> Inl e
                      | Inr a \<Rightarrow>
                          (case maxT self of
                             Inl e \<Rightarrow> Inl e
                           | Inr b \<Rightarrow> Inr (0.5 * (a + b))))) of
             Inl e \<Rightarrow> Inl e
           | Inr Tstart' \<Rightarrow>
               (case newton_try optimize self V Tstart' Vtol of
                  Inr T \<Rightarrow> Inr T
                | Inl _ \<Rightarrow> brentq_except optimize self V Vtol)))"

section \<open>The thermocouple facade\<close>

record Thermocouple_Reference =
  func :: Polynomial_Gaussian_Piecewise_Function
  mats_Tunits_to :: "tunit \<Rightarrow> mat"
  mats_Tunits_from :: "tunit \<Rightarrow> mat"
  ttype :: string
  composition :: string

text \<open>\<^verbatim>\<open>Thermocouple_Reference.__init__\<close>.\<close>

definition TR_init ::
  "Polynomial_Gaussian_Piecewise_Function \<Rightarrow> string \<Rightarrow> string \<Rightarrow> error + Thermocouple_Reference"
where
  "TR_init fn ty compo =
     (if Tunits fn \<noteq> Celsius \<or> Vunits fn \<noteq> MilliVolt then Inl UnsupportedUnits
      else Inr \<lparr>func = fn, mats_Tunits_to = Tunits_mat_C_to,
                 mats_Tunits_from = Tunits_mat_C_from, ttype = ty, composition = compo\<rparr>)"

text \<open>
  \<^verbatim>\<open>emf_mVC\<close>: the conversion lines are commented out in the source, so the temperatures
  go to the function as they are and a derivative is not scaled.
\<close>

definition emf_mVC ::
  "Thermocouple_Reference \<Rightarrow> real list \<Rightarrow> real \<Rightarrow> int \<Rightarrow> string \<Rightarrow> error + fval list"
where
  "emf_mVC self T Tref derivative out_of_range =
     (case PGPF_call (func self) T derivative out_of_range of
        Inl e \<Rightarrow> Inl e
      | Inr f_T \<Rightarrow>
          if derivative \<noteq> 0 then Inr f_T
          else
            (case PGPF_call1 (func self) Tref derivative out_of_range of
               Inl e \<Rightarrow> Inl e
             | Inr f_ref \<Rightarrow> Inr (map (\<lambda>v. fsub v f_ref) f_T)))"

text \<open>
  \<^verbatim>\<open>emf_mVF\<close>, \<^verbatim>\<open>emf_mVK\<close> and \<^verbatim>\<open>emf_mVR\<close> have one body, which differs in the key of the
  conversion matrix only.
\<close>

definition emf_mV_unit ::
  "tunit \<Rightarrow> Thermocouple_Reference \<Rightarrow> real list \<Rightarrow> real \<Rightarrow> int \<Rightarrow> string \<Rightarrow> error + fval list"
where
  "emf_mV_unit u self T Tref derivative out_of_range =
     (case row0 (mats_Tunits_from self u) of
        (mul, add) \<Rightarrow>
          (case PGPF_call (func self) (map (\<lambda>t. t * mul + add) T) derivative out_of_range of
             Inl e \<Rightarrow> Inl e
           | Inr f_T \<Rightarrow>
               if derivative \<noteq> 0 then Inr (map (\<lambda>v. fmul v (Fin (mul powi derivative))) f_T)
               else
                 (case PGPF_call1 (func self) (Tref * mul + add) derivative out_of_range of
                    Inl e \<Rightarrow> Inl e
                  | Inr f_ref \<Rightarrow> Inr (map (\<lambda>v. fsub v f_ref) f_T))))"

definition emf_mVF ::
  "Thermocouple_Reference \<Rightarrow> real list \<Rightarrow> real \<Rightarrow> int \<Rightarrow> string \<Rightarrow> error + fval list"
where
  "emf_mVF = emf_mV_unit Fahrenheit"

definition emf_mVK ::
  "Thermocouple_Reference \<Rightarrow> real list \<Rightarrow> real \<Rightarrow> int \<Rightarrow> string \<Rightarrow> error + fval list"
where
  "emf_mVK = emf_mV_unit Kelvin"

definition emf_mVR ::
  "Thermocouple_Reference \<Rightarrow> real list \<Rightarrow> real \<Rightarrow> int \<Rightarrow> string \<Rightarrow> error + fval list"
where
  "emf_mVR = emf_mV_unit Rankine"

text \<open>
  \<^verbatim>\<open>inverse_CmV\<close>: here too the conversion lines are commented out, but the line that
  converts a given \<^verbatim>\<open>Tstart\<close> is not, and it reads \<^verbatim>\<open>mul\<close> and \<^verbatim>\<open>add\<close>, which are
  neither local nor global names.
\<close>

definition inverse_CmV ::
  "optimize_module option \<Rightarrow> Thermocouple_Reference \<Rightarrow> real \<Rightarrow> real \<Rightarrow> real option \<Rightarrow> real
     \<Rightarrow> error + real"
where
  "inverse_CmV scipy self emf Tref Tstart Vtol =
     (case PGPF_call1 (func self) Tref 0 ''raise'' of
        Inl e \<Rightarrow> Inl e
      | Inr f_ref \<Rightarrow>
          (case Tstart of
             Some _ \<Rightarrow> Inl (NameError ''mul'')
           | None \<Rightarrow> PGPF_inverse scipy (func self) (fadd (Fin emf) f_ref) None Vtol))"

text \<open>\<^verbatim>\<open>inverse_FmV\<close>, \<^verbatim>\<open>inverse_KmV\<close> and \<^verbatim>\<open>inverse_RmV\<close>, again one body.\<close>

definition inverse_unit_mV ::
  "tunit \<Rightarrow> optimize_module option \<Rightarrow> Thermocouple_Reference \<Rightarrow> real \<Rightarrow> real \<Rightarrow> real option
     \<Rightarrow> real \<Rightarrow> error + real"
where
  "inverse_unit_mV u scipy self emf Tref Tstart Vtol =
     (case row0 (mats_Tunits_from self u) of
        (mul, add) \<Rightarrow>
          (case PGPF_call1 (func self) (Tref * mul + add) 0 ''raise'' of
             Inl e \<Rightarrow> Inl e
           | Inr f_ref \<Rightarrow>
               (case PGPF_inverse scipy (func self) (fadd (Fin emf) f_ref)
                       (map_option (\<lambda>t. t * mul + add) Tstart) Vtol of
                  Inl e \<Rightarrow> Inl e
                | Inr T \<Rightarrow>
                    (case row0 (mats_Tunits_to self u) of
                       (imul, iadd) \<Rightarrow> Inr (T * imul + iadd)))))"

definition inverse_FmV ::
  "optimize_module option \<Rightarrow> Thermocouple_Reference \<Rightarrow> real \<Rightarrow> real \<Rightarrow> real option \<Rightarrow> real
     \<Rightarrow> error + real"
where
  "inverse_FmV = inverse_unit_mV Fahrenheit"

definition inverse_KmV ::
  "optimize_module option \<Rightarrow> Thermocouple_Reference \<Rightarrow> real \<Rightarrow> real \<Rightarrow> real option \<Rightarrow> real
     \<Rightarrow> error + real"
where
  "inverse_KmV = inverse_unit_mV Kelvin"

definition inverse_RmV ::
  "optimize_module option \<Rightarrow> Thermocouple_Reference \<Rightarrow> real \<Rightarrow> real \<Rightarrow> real option \<Rightarrow> real
     \<Rightarrow> error + real"
where
  "inverse_RmV = inverse_unit_mV Rankine"

text \<open>
  The facade's forward and inverse operation by unit system, as the specification
  names them, and the default reference temperature of each method.
\<close>

fun EmfForward ::
  "tunit \<Rightarrow> Thermocouple_Reference \<Rightarrow> real list \<Rightarrow> real \<Rightarrow> int \<Rightarrow> string \<Rightarrow> error + fval list"
where
  "EmfForward Celsius = emf_mVC"
| "EmfForward Fahrenheit = emf_mVF"
| "EmfForward Kelvin = emf_mVK"
| "EmfForward Rankine = emf_mVR"

fun EmfInverse ::
  "tunit \<Rightarrow> optimize_module option \<Rightarrow> Thermocouple_Reference \<Rightarrow> real \<Rightarrow> real \<Rightarrow> real option
     \<Rightarrow> real \<Rightarrow> error + real"
where
  "EmfInverse Celsius = inverse_CmV"
| "EmfInverse Fahrenheit = inverse_FmV"
| "EmfInverse Kelvin = inverse_KmV"
| "EmfInverse Rankine = inverse_RmV"

fun Tref_default :: "tunit \<Rightarrow> real" where
  "Tref_default Celsius = 0"
| "Tref_default Fahrenheit = 32"
| "Tref_default Kelvin = 273.15"
| "Tref_default Rankine = 491.67"

section \<open>Example tables\<close>

text \<open>
  Small tables on which the theorems below are instantiated. The first has three
  contiguous segments, the middle one of width zero, and no Gaussian; the second has one
  segment with a Gaussian; the third has one segment that does not contain the ice point;
  the fourth has one segment whose polynomial is the fourth power.
\<close>

definition ex_table :: "piece list" where
  "ex_table =
     [\<lparr>tmin = 0, tmax = 1, coefs = [1, 2, 3], ec = None\<rparr>,
      \<lparr>tmin = 1, tmax = 1, coefs = [5], ec = None\<rparr>,
      \<lparr>tmin = 1, tmax = 3, coefs = [1, 0], ec = None\<rparr>]"

definition ex_func :: Polynomial_Gaussian_Piecewise_Function where
  "ex_func = \<lparr>table = ex_table, Tunits = Celsius, Vunits = MilliVolt,
               source = ''example'', calibration = ''ITS-90''\<rparr>"

definition ex_gauss_table :: "piece list" where
  "ex_gauss_table = [\<lparr>tmin = 0, tmax = 1, coefs = [1, 0], ec = Some (1, - 1, 0)\<rparr>]"

definition ex_gauss_func :: Polynomial_Gaussian_Piecewise_Function where
  "ex_gauss_func = \<lparr>table = ex_gauss_table, Tunits = Celsius, Vunits = MilliVolt,
                     source = ''example'', calibration = ''ITS-90''\<rparr>"

definition ex_hot_table :: "piece list" where
  "ex_hot_table = [\<lparr>tmin = 10, tmax = 20, coefs = [1, 0], ec = None\<rparr>]"

definition ex_hot_func :: Polynomial_Gaussian_Piecewise_Function where
  "ex_hot_func = \<lparr>table = ex_hot_table, Tunits = Celsius, Vunits = MilliVolt,
                   source = ''example'', calibration = ''ITS-90''\<rparr>"

definition ex_quartic_table :: "piece list" where
  "ex_quartic_table = [\<lparr>tmin = 0, tmax = 2, coefs = [1, 0, 0, 0, 0], ec = None\<rparr>]"

definition ex_quartic_func :: Polynomial_Gaussian_Piecewise_Function where
  "ex_quartic_func = \<lparr>table = ex_quartic_table, Tunits = Celsius, Vunits = MilliVolt,
                       source = ''example'', calibration = ''ITS-90''\<rparr>"

definition ex_tc :: Thermocouple_Reference where
  "ex_tc = \<lparr>func = ex_func, mats_Tunits_to = Tunits_mat_C_to,
             mats_Tunits_from = Tunits_mat_C_from, ttype = ''Type X'', composition = ''A - B''\<rparr>"

definition ex_hot_tc :: Thermocouple_Reference where
  "ex_hot_tc = \<lparr>func = ex_hot_func, mats_Tunits_to = Tunits_mat_C_to,
                 mats_Tunits_from = Tunits_mat_C_from, ttype = ''Type Y'', composition = ''A - B''\<rparr>"

text \<open>
  Two stand-ins for \<^verbatim>\<open>scipy.optimize\<close>: in the first, Newton's method hands back its
  start value and Brent's method the lower end of the bracket; in the second, Newton's
  method fails to converge and Brent's method reports equal signs.
\<close>

definition ex_optimize :: optimize_module where
  "ex_optimize = \<lparr>newton = (\<lambda>f x0 f1 f2 tol. Inr x0), brentq = (\<lambda>f a b. Inr a)\<rparr>"

definition ex_optimize_failing :: optimize_module where
  "ex_optimize_failing =
     \<lparr>newton = (\<lambda>f x0 f1 f2 tol. Inl (SolverError ''Failed to converge'')),
      brentq = (\<lambda>f a b. Inl SameSigns)\<rparr>"

section \<open>Properties of the table check\<close>

lemma check_table_bounds:
  "check_table lm tbl = Inr () \<Longrightarrow> p \<in> set tbl \<Longrightarrow> lm \<le> tmin p \<and> tmin p \<le> tmax p"
proof (induction tbl arbitrary: lm)
  case Nil
  then show ?case by simp
next
  case (Cons q qs)
  from Cons.prems(1) have q: "tmin q \<le> tmax q" "tmin q = lm" and rest: "check_table (tmax q) qs = Inr ()"
    by (auto split: if_splits)
  show ?case
  proof (cases "p = q")
    case True
    with q show ?thesis by simp
  next
    case False
    with Cons.prems(2) have "p \<in> set qs" by simp
    from Cons.IH[OF rest this] q show ?thesis by simp
  qed
qed

lemma check_table_error:
  "check_table lm tbl = Inl e \<Longrightarrow> e = NotAscending \<or> e = NotContiguous"
  by (induction tbl arbitrary: lm) (auto split: if_splits)

lemma check_table_nth:
  "(check_table lm tbl = Inr ()) =
   (\<forall>i<length tbl. tmin (tbl ! i) \<le> tmax (tbl ! i)
       \<and> tmin (tbl ! i) = (if i = 0 then lm else tmax (tbl ! (i - 1))))"
proof (induction tbl arbitrary: lm)
  case Nil
  show ?case by simp
next
  case (Cons q qs)
  show ?case (is "?L = ?R")
  proof
    assume L: ?L
    then have q: "tmin q \<le> tmax q" "tmin q = lm" and rest: "check_table (tmax q) qs = Inr ()"
      by (auto split: if_splits)
    have ih:
      "\<forall>i<length qs. tmin (qs ! i) \<le> tmax (qs ! i)
         \<and> tmin (qs ! i) = (if i = 0 then tmax q else tmax (qs ! (i - 1)))"
      by (rule Cons.IH[of "tmax q", THEN iffD1, OF rest])
    show ?R
    proof (intro allI impI)
      fix i assume i: "i < length (q # qs)"
      show "tmin ((q # qs) ! i) \<le> tmax ((q # qs) ! i)
        \<and> tmin ((q # qs) ! i) = (if i = 0 then lm else tmax ((q # qs) ! (i - 1)))"
      proof (cases i)
        case 0
        with q show ?thesis by simp
      next
        case (Suc j)
        with i have "j < length qs" by simp
        with ih Suc show ?thesis by (cases j) auto
      qed
    qed
  next
    assume R: ?R
    from R[rule_format, of 0] have q: "tmin q \<le> tmax q" "tmin q = lm" by auto
    have tl: "\<forall>i<length qs. tmin (qs ! i) \<le> tmax (qs ! i)
         \<and> tmin (qs ! i) = (if i = 0 then tmax q else tmax (qs ! (i - 1)))"
    proof (intro allI impI)
      fix i assume i: "i < length qs"
      from R[rule_format, of "Suc i"] i show "tmin (qs ! i) \<le> tmax (qs ! i)
         \<and> tmin (qs ! i) = (if i = 0 then tmax q else tmax (qs ! (i - 1)))"
        by (cases i) auto
    qed
    have "check_table (tmax q) qs = Inr ()"
      by (rule Cons.IH[of "tmax q", THEN iffD2, OF tl])
    with q show ?L by simp
  qed
qed

lemma count_zero:
  "check_table lm tbl = Inr () \<Longrightarrow> t \<le> lm \<Longrightarrow> filter (\<lambda>p. tmax p < t) tbl = []"
  by (auto simp: filter_empty_conv dest!: check_table_bounds)

lemma count_segment:
  "check_table lm tbl = Inr () \<Longrightarrow> lm \<le> t \<Longrightarrow> k = length (filter (\<lambda>p. tmax p < t) tbl) \<Longrightarrow>
     (\<forall>j<k. tmax (tbl ! j) < t)
     \<and> (k < length tbl \<longrightarrow> tmin (tbl ! k) \<le> t \<and> t \<le> tmax (tbl ! k))
     \<and> (tbl \<noteq> [] \<longrightarrow> (k = length tbl) = (tmax (last tbl) < t))"
proof (induction tbl arbitrary: lm k)
  case Nil
  then show ?case by simp
next
  case (Cons q qs)
  from Cons.prems(1) have q: "tmin q \<le> tmax q" "tmin q = lm" and rest: "check_table (tmax q) qs = Inr ()"
    by (auto split: if_splits)
  show ?case
  proof (cases "tmax q < t")
    case True
    define k' where "k' = length (filter (\<lambda>p. tmax p < t) qs)"
    with True Cons.prems(3) have k: "k = Suc k'" by simp
    from True have "tmax q \<le> t" by simp
    from Cons.IH[OF rest this k'_def] have ih:
      "\<forall>j<k'. tmax (qs ! j) < t"
      "k' < length qs \<longrightarrow> tmin (qs ! k') \<le> t \<and> t \<le> tmax (qs ! k')"
      "qs \<noteq> [] \<longrightarrow> (k' = length qs) = (tmax (last qs) < t)" by auto
    have a: "\<forall>j<k. tmax ((q # qs) ! j) < t"
    proof (intro allI impI)
      fix j assume "j < k"
      with k ih(1) True show "tmax ((q # qs) ! j) < t" by (cases j) auto
    qed
    have b: "k < length (q # qs) \<longrightarrow> tmin ((q # qs) ! k) \<le> t \<and> t \<le> tmax ((q # qs) ! k)"
      using k ih(2) by simp
    have c: "(k = length (q # qs)) = (tmax (last (q # qs)) < t)"
      using k ih(3) True by (cases "qs = []") (auto simp: k'_def)
    from a b c show ?thesis by simp
  next
    case False
    then have "t \<le> tmax q" by simp
    from count_zero[OF rest this] False Cons.prems(3) have k: "k = 0" by simp
    have "tmax q \<le> tmax (last (q # qs))"
    proof (cases "qs = []")
      case True then show ?thesis by simp
    next
      case F: False
      then have "last qs \<in> set qs" by simp
      from check_table_bounds[OF rest this] F show ?thesis by simp
    qed
    with \<open>t \<le> tmax q\<close> have "\<not> tmax (last (q # qs)) < t" by linarith
    with k q Cons.prems(2) \<open>t \<le> tmax q\<close> show ?thesis by simp
  qed
qed

section \<open>Properties of the evaluation loop\<close>

lemma piece_emf_Inl_iff:
  "(piece_emf p d T = Inl e) =
   (d < 0 \<and> e = NegativeDerivative \<or> 3 < d \<and> ec p \<noteq> None \<and> e = UnsupportedDerivative)"
  by (auto simp: piece_emf_def polyder_def split: option.splits)

lemma piece_emf_Inr_nth:
  "piece_emf p d T = Inr emf \<Longrightarrow>
     length emf = length T \<and> (\<forall>i<length T. piece_emf p d [T ! i] = Inr [emf ! i])"
  by (auto simp: piece_emf_def polyder_def split: option.splits if_splits)

lemma piece_emf_total:
  "0 \<le> d \<Longrightarrow> d \<le> 3 \<or> ec p = None \<Longrightarrow> \<exists>emf. piece_emf p d T = Inr emf"
proof -
  assume a: "0 \<le> d" "d \<le> 3 \<or> ec p = None"
  show ?thesis
  proof (cases "piece_emf p d T")
    case (Inl e)
    with a show ?thesis by (auto simp: piece_emf_Inl_iff)
  next
    case (Inr emf)
    then show ?thesis by simp
  qed
qed

lemma table_loop_Inl:
  "table_loop tbl d T st = Inl e \<Longrightarrow> \<exists>p\<in>set tbl. piece_emf p d T = Inl e"
proof (induction tbl arbitrary: st)
  case Nil
  then show ?case by simp
next
  case (Cons q qs)
  obtain sel ch where st: "st = (sel, ch)" by (cases st)
  show ?case
  proof (cases "piece_emf q d T")
    case (Inl e')
    with Cons.prems st show ?thesis by simp
  next
    case (Inr emf)
    with Cons.prems st Cons.IH show ?thesis by auto
  qed
qed

lemma table_loop_total:
  "\<forall>p\<in>set tbl. \<exists>emf. piece_emf p d T = Inr emf \<Longrightarrow> \<exists>r. table_loop tbl d T st = Inr r"
proof (cases "table_loop tbl d T st")
  case (Inl e)
  assume a: "\<forall>p\<in>set tbl. \<exists>emf. piece_emf p d T = Inr emf"
  from table_loop_Inl[OF Inl] a show ?thesis by auto
next
  case (Inr r)
  then show ?thesis by simp
qed

lemma table_loop_Inr:
  "table_loop tbl d T (sel, ch) = Inr (sel', ch') \<Longrightarrow> length sel = length T \<Longrightarrow>
     length sel' = length T
     \<and> (\<forall>i<length T. sel' ! i = sel ! i + int (length (filter (\<lambda>p. tmax p < T ! i) tbl)))
     \<and> length ch' = length ch + length tbl
     \<and> (\<forall>j<length ch. ch' ! j = ch ! j)
     \<and> (\<forall>j<length tbl. \<exists>emf. piece_emf (tbl ! j) d T = Inr emf
            \<and> ch' ! (length ch + j) = Some (map Fin emf))"
proof (induction tbl arbitrary: sel ch)
  case Nil
  then show ?case by simp
next
  case (Cons q qs)
  from Cons.prems(1) obtain emf where emf: "piece_emf q d T = Inr emf"
    by (cases "piece_emf q d T") auto
  define sel1 where "sel1 = map2 (\<lambda>s t. s + (if t > tmax q then 1 else 0)) sel T"
  define ch1 where "ch1 = ch @ [Some (map Fin emf)]"
  from Cons.prems(1) emf have loop: "table_loop qs d T (sel1, ch1) = Inr (sel', ch')"
    by (simp add: sel1_def ch1_def)
  have len1: "length sel1 = length T" using Cons.prems(2) by (simp add: sel1_def)
  have sel1_nth: "\<forall>i<length T. sel1 ! i = sel ! i + (if T ! i > tmax q then 1 else 0)"
    using Cons.prems(2) by (simp add: sel1_def)
  from Cons.IH[OF loop len1] have ih:
    "length sel' = length T"
    "\<forall>i<length T. sel' ! i = sel1 ! i + int (length (filter (\<lambda>p. tmax p < T ! i) qs))"
    "length ch' = length ch1 + length qs"
    "\<forall>j<length ch1. ch' ! j = ch1 ! j"
    "\<forall>j<length qs. \<exists>emf. piece_emf (qs ! j) d T = Inr emf
            \<and> ch' ! (length ch1 + j) = Some (map Fin emf)" by auto
  have a: "\<forall>i<length T. sel' ! i = sel ! i + int (length (filter (\<lambda>p. tmax p < T ! i) (q # qs)))"
    using ih(2) sel1_nth by simp
  have b: "length ch' = length ch + length (q # qs)" using ih(3) by (simp add: ch1_def)
  have c: "\<forall>j<length ch. ch' ! j = ch ! j" using ih(4) by (simp add: ch1_def nth_append)
  have d: "\<forall>j<length (q # qs). \<exists>emf. piece_emf ((q # qs) ! j) d T = Inr emf
            \<and> ch' ! (length ch + j) = Some (map Fin emf)"
  proof (intro allI impI)
    fix j assume j: "j < length (q # qs)"
    show "\<exists>emf. piece_emf ((q # qs) ! j) d T = Inr emf
            \<and> ch' ! (length ch + j) = Some (map Fin emf)"
    proof (cases j)
      case 0
      from ih(4)[rule_format, of "length ch"] have "ch' ! length ch = Some (map Fin emf)"
        by (simp add: ch1_def)
      with 0 emf show ?thesis by simp
    next
      case (Suc j')
      with j have "j' < length qs" by simp
      from ih(5)[rule_format, OF this] Suc show ?thesis by (simp add: ch1_def)
    qed
  qed
  from ih(1) a b c d show ?case by blast
qed

lemma minT_Inr: "minT self = Inr lo \<Longrightarrow> table self \<noteq> [] \<and> lo = tmin (table self ! 0)"
  by (auto simp: minT_def split: list.splits)

lemma maxT_Inr: "maxT self = Inr hi \<Longrightarrow> table self \<noteq> [] \<and> hi = tmax (last (table self))"
  by (auto simp: maxT_def split: list.splits)

lemma list_ex_map_id: "list_ex id (map P xs) = (\<exists>i<length xs. P (xs ! i))"
  by (induction xs) (auto simp: less_Suc_eq_0_disj)

lemma PGPF_call_unfold:
  assumes pol: "pol \<in> set [''raise'', ''nan'', ''extrapolate'']"
    and lo: "minT self = Inr lo"
    and loop: "table_loop (table self) d T (map (\<lambda>t. if lo \<le> t then 1 else 0) T, [None])
                 = Inr (sel, ch)"
  shows "PGPF_call self T d pol =
      (if pol = ''raise'' \<and> (\<exists>i<length sel. sel ! i \<le> 0 \<or> int (length (table self)) < sel ! i)
       then Inl (OutOfRange
                  (if np_extract (map (\<lambda>s. s \<le> 0) sel) T = [] then None
                   else Some (np_extract (map (\<lambda>s. s \<le> 0) sel) T))
                  (if np_extract (map (\<lambda>s. int (length (table self)) < s) sel) T = [] then None
                   else Some (np_extract (map (\<lambda>s. int (length (table self)) < s) sel) T)))
       else np_choose sel
              (if pol = ''nan'' then
                 (ch @ [None])[0 := Some (map (\<lambda>t. NaN) T),
                               length ch := Some (map (\<lambda>t. NaN) T)]
               else
                 (ch @ [None])[0 := ch ! 1, length ch := ch ! (length ch - 1)]))"
proof -
  from minT_Inr[OF lo] have ne: "table self \<noteq> []" by simp
  from table_loop_Inr[OF loop] have len: "length ch = 1 + length (table self)" by simp
  with ne have l2: "2 \<le> length ch" by (cases "table self") auto
  have u1: "(ch @ [None]) ! Suc 0 = ch ! Suc 0" using l2 by (simp add: nth_append)
  have u2: "(ch @ [None])[0 := x] ! (length ch - Suc 0) = ch ! (length ch - Suc 0)" for x
    using l2 by (auto simp: nth_append)
  have cond: "((\<exists>i<length sel. sel ! i \<le> 0) \<or> (\<exists>i<length sel. int (length (table self)) < sel ! i))
     = (\<exists>i<length sel. sel ! i \<le> 0 \<or> int (length (table self)) < sel ! i)" by blast
  from pol consider "pol = ''raise''" | "pol = ''nan''" | "pol = ''extrapolate''" by auto
  then show ?thesis
  proof cases
    case 1
    show ?thesis
      unfolding PGPF_call_def 1
      by (simp add: lo loop Let_def list_ex_map_id u1 u2 cond split del: if_split cong: if_cong)
  next
    case 2
    show ?thesis
      unfolding PGPF_call_def 2
      by (simp add: lo loop Let_def list_ex_map_id u1 u2 cond split del: if_split cong: if_cong)
  next
    case 3
    show ?thesis
      unfolding PGPF_call_def 3
      by (simp add: lo loop Let_def list_ex_map_id u1 u2 cond split del: if_split cong: if_cong)
  qed
qed

lemma loop_selector:
  assumes loop: "table_loop tbl d T (map (\<lambda>t. if lo \<le> t then 1 else 0) T, ch0) = Inr (sel, ch)"
  shows "sel = map (\<lambda>t. (if lo \<le> t then 1 else 0) + int (length (filter (\<lambda>p. tmax p < t) tbl))) T"
proof (rule nth_equalityI)
  from table_loop_Inr[OF loop] show "length sel = length (map (\<lambda>t. (if lo \<le> t then 1 else 0)
      + int (length (filter (\<lambda>p. tmax p < t) tbl))) T)" by simp
next
  fix i assume "i < length sel"
  with table_loop_Inr[OF loop] have i: "i < length T"
    and "sel ! i = map (\<lambda>t. if lo \<le> t then 1 else 0) T ! i
                     + int (length (filter (\<lambda>p. tmax p < T ! i) tbl))" by auto
  then show "sel ! i = map (\<lambda>t. (if lo \<le> t then 1 else 0)
      + int (length (filter (\<lambda>p. tmax p < t) tbl))) T ! i" by simp
qed

lemma np_extract_map: "np_extract (map P (map g T)) T = filter (\<lambda>t. P (g t)) T"
  by (induction T) (auto simp: np_extract_def)

text \<open>The selector of one input, for a table that passed the check of the constructor.\<close>

lemma selector_valid:
  assumes chk: "check_table lo tbl = Inr ()" and ne: "tbl \<noteq> []"
    and s: "s = (if lo \<le> t then 1 else 0) + int (length (filter (\<lambda>p. tmax p < t) tbl))"
  shows "0 \<le> s \<and> s \<le> int (length tbl) + 1"
    and "(s \<le> 0) = (t < lo)"
    and "(int (length tbl) < s) = (tmax (last tbl) < t)"
    and "lo \<le> t \<Longrightarrow> t \<le> tmax (last tbl) \<Longrightarrow>
           nat s - 1 < length tbl \<and> tmin (tbl ! (nat s - 1)) \<le> t \<and> t \<le> tmax (tbl ! (nat s - 1))
           \<and> (\<forall>j<nat s - 1. tmax (tbl ! j) < t)"
proof -
  define k where "k = length (filter (\<lambda>p. tmax p < t) tbl)"
  have kle: "k \<le> length tbl" by (simp add: k_def)
  have sk': "s = (if lo \<le> t then 1 else 0) + int k" by (simp add: s k_def)
  show "0 \<le> s \<and> s \<le> int (length tbl) + 1" using kle by (simp add: sk')
  have lohi: "lo \<le> tmax (last tbl)"
    using check_table_bounds[OF chk, of "last tbl"] ne by simp
  show "(s \<le> 0) = (t < lo)"
  proof (cases "lo \<le> t")
    case True
    then show ?thesis by (simp add: s)
  next
    case False
    then have "t \<le> lo" by simp
    from count_zero[OF chk this] False show ?thesis by (simp add: s)
  qed
  show "(int (length tbl) < s) = (tmax (last tbl) < t)"
  proof (cases "lo \<le> t")
    case True
    from count_segment[OF chk True k_def] ne have "(k = length tbl) = (tmax (last tbl) < t)" by simp
    with True kle show ?thesis by (auto simp: s k_def[symmetric])
  next
    case False
    then have tl: "t \<le> lo" by simp
    from count_zero[OF chk tl] have "k = 0" by (simp add: k_def)
    with False lohi show ?thesis by (simp add: s k_def[symmetric])
  qed
  show "nat s - 1 < length tbl \<and> tmin (tbl ! (nat s - 1)) \<le> t \<and> t \<le> tmax (tbl ! (nat s - 1))
           \<and> (\<forall>j<nat s - 1. tmax (tbl ! j) < t)" if a: "lo \<le> t" and b: "t \<le> tmax (last tbl)"
  proof -
    from a have sk: "nat s - 1 = k" by (simp add: s k_def)
    from count_segment[OF chk a k_def] ne b have
      "\<forall>j<k. tmax (tbl ! j) < t" "k < length tbl \<longrightarrow> tmin (tbl ! k) \<le> t \<and> t \<le> tmax (tbl ! k)"
      "k \<noteq> length tbl" by auto
    with kle sk show ?thesis by auto
  qed
qed

lemma np_choose_nth:
  assumes "\<forall>i<length a. 0 \<le> a ! i \<and> a ! i < int (length cs)"
  shows "\<exists>vs. np_choose a cs = Inr vs \<and> length vs = length a
           \<and> (\<forall>i<length a. vs ! i = (case cs ! nat (a ! i) of None \<Rightarrow> NaN | Some c \<Rightarrow> c ! i))"
proof -
  have "\<not> list_ex (\<lambda>s. s < 0 \<or> int (length cs) \<le> s) a"
    using assms by (fastforce simp: list_ex_iff in_set_conv_nth)
  then show ?thesis by (simp add: np_choose_def)
qed

lemma PGPF_call_values:
  assumes pol: "pol \<in> set [''raise'', ''nan'', ''extrapolate'']"
    and lo: "minT self = Inr lo"
    and loop: "table_loop (table self) d T (map (\<lambda>t. if lo \<le> t then 1 else 0) T, [None])
                 = Inr (sel, ch)"
    and inr: "\<not> (pol = ''raise''
                  \<and> (\<exists>i<length sel. sel ! i \<le> 0 \<or> int (length (table self)) < sel ! i))"
  shows "\<exists>vs. PGPF_call self T d pol = Inr vs \<and> length vs = length T \<and>
     (\<forall>i<length T.
        (1 \<le> sel ! i \<and> sel ! i \<le> int (length (table self)) \<longrightarrow>
           (\<exists>v. piece_emf (table self ! (nat (sel ! i) - 1)) d [T ! i] = Inr [v] \<and> vs ! i = Fin v))
      \<and> (sel ! i \<le> 0 \<longrightarrow>
           (if pol = ''nan'' then vs ! i = NaN
            else \<exists>v. piece_emf (table self ! 0) d [T ! i] = Inr [v] \<and> vs ! i = Fin v))
      \<and> (int (length (table self)) < sel ! i \<longrightarrow>
           (if pol = ''nan'' then vs ! i = NaN
            else \<exists>v. piece_emf (last (table self)) d [T ! i] = Inr [v] \<and> vs ! i = Fin v)))"
proof -
  define tbl where "tbl = table self"
  define n where "n = length tbl"
  define E where "E = (if pol = ''nan'' then
                 (ch @ [None])[0 := Some (map (\<lambda>t. NaN) T),
                               length ch := Some (map (\<lambda>t. NaN) T)]
               else
                 (ch @ [None])[0 := ch ! 1, length ch := ch ! (length ch - 1)])"
  from minT_Inr[OF lo] have ne: "tbl \<noteq> []" by (simp add: tbl_def)
  then have n1: "1 \<le> n" by (cases tbl) (auto simp: n_def)
  note L = table_loop_Inr[OF loop, simplified, folded tbl_def n_def]
  from L have lsel: "length sel = length T" and lch: "length ch = Suc n" by auto
  from L have pieces: "\<forall>j<n. \<exists>emf. piece_emf (tbl ! j) d T = Inr emf \<and> ch ! Suc j = Some (map Fin emf)"
    by auto
  have selv: "sel = map (\<lambda>t. (if lo \<le> t then 1 else 0)
                  + int (length (filter (\<lambda>p. tmax p < t) tbl))) T"
    using loop_selector[OF loop] by (simp add: tbl_def)
  have bounds: "0 \<le> sel ! i \<and> sel ! i \<le> int n + 1" if "i < length T" for i
  proof -
    have "length (filter (\<lambda>p. tmax p < T ! i) tbl) \<le> n" by (simp add: n_def)
    with that show ?thesis by (simp add: selv)
  qed
  have lE: "length E = n + 2" by (simp add: E_def lch)
  have Emid: "E ! Suc j = ch ! Suc j" if "j < n" for j
    using that by (simp add: E_def lch nth_append)
  have E0: "E ! 0 = (if pol = ''nan'' then Some (map (\<lambda>t. NaN) T) else ch ! 1)"
    by (simp add: E_def lch)
  have Elast: "E ! Suc n = (if pol = ''nan'' then Some (map (\<lambda>t. NaN) T) else ch ! n)"
    by (simp add: E_def lch)
  have call: "PGPF_call self T d pol = np_choose sel E"
    using PGPF_call_unfold[OF pol lo loop] inr by (simp add: E_def tbl_def)
  have "\<forall>i<length sel. 0 \<le> sel ! i \<and> sel ! i < int (length E)"
  proof (intro allI impI)
    fix i assume "i < length sel"
    with lsel have "i < length T" by simp
    from bounds[OF this] lE show "0 \<le> sel ! i \<and> sel ! i < int (length E)" by simp
  qed
  from np_choose_nth[OF this] obtain vs where vs: "np_choose sel E = Inr vs"
    "length vs = length sel"
    "\<forall>i<length sel. vs ! i = (case E ! nat (sel ! i) of None \<Rightarrow> NaN | Some c \<Rightarrow> c ! i)"
    by blast
  have piece_at: "\<exists>v. piece_emf (tbl ! j) d [T ! i] = Inr [v] \<and> ch ! Suc j = Some (map Fin emf)
                      \<and> emf ! i = v \<and> length emf = length T"
    if "j < n" "i < length T" "ch ! Suc j = Some (map Fin emf)" for i j emf
  proof -
    from pieces that(1) obtain emf' where e: "piece_emf (tbl ! j) d T = Inr emf'"
      "ch ! Suc j = Some (map Fin emf')" by blast
    with that(3) have "map Fin emf = map Fin emf'" by simp
    then have "emf = emf'" by (simp add: inj_on_def)
    with piece_emf_Inr_nth[OF e(1)] that show ?thesis by simp
  qed
  have mid: "\<exists>v. piece_emf (tbl ! j) d [T ! i] = Inr [v] \<and> (case ch ! Suc j of None \<Rightarrow> NaN | Some c \<Rightarrow> c ! i) = Fin v"
    if "j < n" "i < length T" for i j
  proof -
    from pieces that(1) obtain emf where e: "ch ! Suc j = Some (map Fin emf)" by blast
    from piece_at[OF that e] that(2) e show ?thesis by auto
  qed
  have main: "(1 \<le> sel ! i \<and> sel ! i \<le> int n \<longrightarrow>
           (\<exists>v. piece_emf (tbl ! (nat (sel ! i) - 1)) d [T ! i] = Inr [v] \<and> vs ! i = Fin v))
      \<and> (sel ! i \<le> 0 \<longrightarrow>
           (if pol = ''nan'' then vs ! i = NaN
            else \<exists>v. piece_emf (tbl ! 0) d [T ! i] = Inr [v] \<and> vs ! i = Fin v))
      \<and> (int n < sel ! i \<longrightarrow>
           (if pol = ''nan'' then vs ! i = NaN
            else \<exists>v. piece_emf (last tbl) d [T ! i] = Inr [v] \<and> vs ! i = Fin v))"
    if i: "i < length T" for i
  proof -
    from i lsel vs(3) have v: "vs ! i = (case E ! nat (sel ! i) of None \<Rightarrow> NaN | Some c \<Rightarrow> c ! i)"
      by simp
    have a: "\<exists>v. piece_emf (tbl ! (nat (sel ! i) - 1)) d [T ! i] = Inr [v] \<and> vs ! i = Fin v"
      if r: "1 \<le> sel ! i" "sel ! i \<le> int n"
    proof -
      define j where "j = nat (sel ! i) - 1"
      from r have j: "j < n" "nat (sel ! i) = Suc j" by (auto simp: j_def)
      from mid[OF j(1) i] obtain w where w: "piece_emf (tbl ! j) d [T ! i] = Inr [w]"
        "(case ch ! Suc j of None \<Rightarrow> NaN | Some c \<Rightarrow> c ! i) = Fin w" by blast
      have "vs ! i = (case ch ! Suc j of None \<Rightarrow> NaN | Some c \<Rightarrow> c ! i)"
        using v j(2) Emid[OF j(1)] by simp
      with w have "piece_emf (tbl ! j) d [T ! i] = Inr [w] \<and> vs ! i = Fin w" by simp
      then show ?thesis unfolding j_def by blast
    qed
    have b: "if pol = ''nan'' then vs ! i = NaN
            else \<exists>v. piece_emf (tbl ! 0) d [T ! i] = Inr [v] \<and> vs ! i = Fin v"
      if r: "sel ! i \<le> 0"
    proof -
      from r bounds[OF i] have z: "nat (sel ! i) = 0" by simp
      from n1 have "0 < n" by simp
      from mid[OF this i] v z E0 i show ?thesis by auto
    qed
    have c: "if pol = ''nan'' then vs ! i = NaN
            else \<exists>v. piece_emf (last tbl) d [T ! i] = Inr [v] \<and> vs ! i = Fin v"
      if r: "int n < sel ! i"
    proof -
      from r bounds[OF i] have z: "nat (sel ! i) = Suc n" by simp
      from n1 have m: "n - 1 < n" "Suc (n - 1) = n" by auto
      have "last tbl = tbl ! (n - 1)" using ne by (simp add: last_conv_nth n_def)
      with mid[OF m(1) i] v z Elast i m(2) show ?thesis by auto
    qed
    from a b c show ?thesis by blast
  qed
  from call vs(1,2) lsel main show ?thesis
    unfolding tbl_def[symmetric] n_def[symmetric] by auto
qed

section \<open>The example tables pass the constructor\<close>

lemma ex_func_init:
  "PGPF_init ex_table Celsius MilliVolt ''example'' ''ITS-90'' = Inr ex_func"
  by (simp add: PGPF_init_def ex_table_def ex_func_def)

lemma ex_gauss_func_init:
  "PGPF_init ex_gauss_table Celsius MilliVolt ''example'' ''ITS-90'' = Inr ex_gauss_func"
  by (simp add: PGPF_init_def ex_gauss_table_def ex_gauss_func_def)

lemma ex_hot_func_init:
  "PGPF_init ex_hot_table Celsius MilliVolt ''example'' ''ITS-90'' = Inr ex_hot_func"
  by (simp add: PGPF_init_def ex_hot_table_def ex_hot_func_def)

lemma PGPF_init_Inr:
  "PGPF_init tbl Tu Vu src cal = Inr self \<Longrightarrow>
     table self = tbl \<and> tbl \<noteq> [] \<and> check_table (tmin (tbl ! 0)) tbl = Inr ()
     \<and> minT self = Inr (tmin (tbl ! 0)) \<and> maxT self = Inr (tmax (last tbl))"
  by (auto simp: PGPF_init_def minT_def maxT_def split: list.splits sum.splits)

section \<open>The call under the policy "raise"\<close>

lemma table_loop_unsupported:
  "3 < d \<Longrightarrow> \<exists>p\<in>set tbl. ec p \<noteq> None \<Longrightarrow> table_loop tbl d T st = Inl UnsupportedDerivative"
proof (induction tbl arbitrary: st)
  case Nil
  then show ?case by simp
next
  case (Cons q qs)
  obtain sel ch where st: "st = (sel, ch)" by (cases st)
  show ?case
  proof (cases "ec q = None")
    case True
    with Cons.prems have rest: "\<exists>p\<in>set qs. ec p \<noteq> None" by auto
    from Cons.prems(1) True obtain emf where "piece_emf q d T = Inr emf"
      using piece_emf_total[of d q T] by auto
    with Cons.IH[OF Cons.prems(1) rest] st show ?thesis by simp
  next
    case False
    with Cons.prems(1) have "piece_emf q d T = Inl UnsupportedDerivative"
      by (simp add: piece_emf_Inl_iff)
    with st show ?thesis by simp
  qed
qed

lemma table_loop_supported:
  assumes "0 \<le> d" and "d \<le> 3 \<or> (\<forall>p\<in>set tbl. ec p = None)"
  shows "\<exists>sel ch. table_loop tbl d T st = Inr (sel, ch)"
proof -
  have "\<forall>p\<in>set tbl. \<exists>emf. piece_emf p d T = Inr emf"
    using assms piece_emf_total[of d _ T] by blast
  from table_loop_total[OF this, of st] show ?thesis by auto
qed

text \<open>The call under the policy "raise", for a table that passed the constructor.\<close>

lemma PGPF_call_raise:
  assumes init: "PGPF_init tbl Tu Vu src cal = Inr self"
    and lo: "minT self = Inr lo" and hi: "maxT self = Inr hi"
    and loop: "table_loop (table self) d T (map (\<lambda>t. if lo \<le> t then 1 else 0) T, [None])
                 = Inr (sel, ch)"
  shows "(\<exists>t\<in>set T. t < lo \<or> hi < t) \<Longrightarrow>
           PGPF_call self T d ''raise'' =
             Inl (OutOfRange (if filter (\<lambda>t. t < lo) T = [] then None
                              else Some (filter (\<lambda>t. t < lo) T))
                             (if filter (\<lambda>t. hi < t) T = [] then None
                              else Some (filter (\<lambda>t. hi < t) T)))"
    and "\<not> (\<exists>t\<in>set T. t < lo \<or> hi < t) \<Longrightarrow> \<exists>vs. PGPF_call self T d ''raise'' = Inr vs"
    and "(\<exists>i<length sel. sel ! i \<le> 0 \<or> int (length (table self)) < sel ! i)
           = (\<exists>t\<in>set T. t < lo \<or> hi < t)"
proof -
  from PGPF_init_Inr[OF init] lo hi have t: "table self = tbl" and ne: "tbl \<noteq> []"
    and chk: "check_table lo tbl = Inr ()" and hi': "hi = tmax (last tbl)" by auto
  define selv where "selv = (\<lambda>t. (if lo \<le> t then 1 else 0)
                  + int (length (filter (\<lambda>p. tmax p < t) tbl)))"
  have sel: "sel = map selv T" using loop_selector[OF loop] by (simp add: selv_def t)
  have under: "(selv x \<le> 0) = (x < lo)" for x
    using selector_valid(2)[OF chk ne, of "selv x" x] by (simp add: selv_def)
  have over: "(int (length tbl) < selv x) = (hi < x)" for x
    using selector_valid(3)[OF chk ne, of "selv x" x] by (simp add: selv_def hi')
  show cond: "(\<exists>i<length sel. sel ! i \<le> 0 \<or> int (length (table self)) < sel ! i)
           = (\<exists>t\<in>set T. t < lo \<or> hi < t)"
  proof -
    have "(\<exists>i<length sel. sel ! i \<le> 0 \<or> int (length (table self)) < sel ! i)
            = (\<exists>i<length T. T ! i < lo \<or> hi < T ! i)"
      unfolding sel t by (simp add: under over cong: conj_cong)
    also have "\<dots> = (\<exists>t\<in>set T. t < lo \<or> hi < t)"
      by (metis in_set_conv_nth)
    finally show ?thesis .
  qed
  have pol: "''raise'' \<in> set [''raise'', ''nan'', ''extrapolate'']" by simp
  note unf = PGPF_call_unfold[OF pol lo loop]
  have ex1: "np_extract (map (\<lambda>s. s \<le> 0) sel) T = filter (\<lambda>t. t < lo) T"
    unfolding sel np_extract_map by (simp add: under)
  have ex2: "np_extract (map (\<lambda>s. int (length (table self)) < s) sel) T = filter (\<lambda>t. hi < t) T"
    unfolding sel t np_extract_map by (simp add: over)
  show "PGPF_call self T d ''raise'' =
             Inl (OutOfRange (if filter (\<lambda>t. t < lo) T = [] then None
                              else Some (filter (\<lambda>t. t < lo) T))
                             (if filter (\<lambda>t. hi < t) T = [] then None
                              else Some (filter (\<lambda>t. hi < t) T)))"
    if "\<exists>t\<in>set T. t < lo \<or> hi < t"
  proof -
    from that cond have c: "\<exists>i<length sel. sel ! i \<le> 0 \<or> int (length (table self)) < sel ! i"
      by simp
    show ?thesis unfolding unf using c by (simp only: ex1 ex2 simp_thms if_True)
  qed
  show "\<exists>vs. PGPF_call self T d ''raise'' = Inr vs" if "\<not> (\<exists>t\<in>set T. t < lo \<or> hi < t)"
  proof -
    from that cond have "\<not> (''raise'' = ''raise''
        \<and> (\<exists>i<length sel. sel ! i \<le> 0 \<or> int (length (table self)) < sel ! i))" by simp
    from PGPF_call_values[OF pol lo loop this] show ?thesis by blast
  qed
qed

lemmas eval_call =
  PGPF_call_def minT_def maxT_def piece_emf_def polyder_def polyder_step_def polyval_def
  np_choose_def np_extract_def Let_def numeral_eq_Suc upt_rec

section \<open>Calls on inputs in range, and the facade\<close>

text \<open>
  On inputs in range the call is a map: each element of the result depends on its own
  input only.
\<close>

lemma PGPF_call_in_range:
  assumes init: "PGPF_init tbl Tu Vu src cal = Inr self"
    and lo: "minT self = Inr lo" and hi: "maxT self = Inr hi"
    and d0: "0 \<le> d" and d3: "d \<le> 3 \<or> (\<forall>p\<in>set tbl. ec p = None)"
    and pol: "pol \<in> set [''raise'', ''nan'', ''extrapolate'']"
  shows "\<exists>g. \<forall>T. (\<forall>t\<in>set T. lo \<le> t \<and> t \<le> hi) \<longrightarrow>
               PGPF_call self T d pol = Inr (map (\<lambda>t. Fin (g t)) T)"
proof -
  from PGPF_init_Inr[OF init] lo hi have t: "table self = tbl" and ne: "tbl \<noteq> []"
    and chk: "check_table lo tbl = Inr ()" and hi': "hi = tmax (last tbl)" by auto
  define selv where "selv = (\<lambda>x. (if lo \<le> x then 1 else 0)
                  + int (length (filter (\<lambda>p. tmax p < x) tbl)))"
  define g where "g = (\<lambda>x. case piece_emf (tbl ! (nat (selv x) - 1)) d [x] of
                           Inr (v # _) \<Rightarrow> v | _ \<Rightarrow> 0)"
  have "PGPF_call self T d pol = Inr (map (\<lambda>t. Fin (g t)) T)"
    if all: "\<forall>t\<in>set T. lo \<le> t \<and> t \<le> hi" for T
  proof -
    let ?st = "(map (\<lambda>t. if lo \<le> t then 1 else 0) T, [None])"
    from table_loop_supported[OF d0 d3, of T ?st] t obtain sel ch
      where loop: "table_loop (table self) d T ?st = Inr (sel, ch)" by auto
    have sel: "sel = map selv T" using loop_selector[OF loop] by (simp add: selv_def t)
    from all have "\<not> (\<exists>t\<in>set T. t < lo \<or> hi < t)" by auto
    with PGPF_call_raise(3)[OF init lo hi loop] have nr: "\<not> (pol = ''raise''
        \<and> (\<exists>i<length sel. sel ! i \<le> 0 \<or> int (length (table self)) < sel ! i))" by simp
    from PGPF_call_values[OF pol lo loop nr] obtain vs where
      c: "PGPF_call self T d pol = Inr vs" and l: "length vs = length T"
      and v: "\<forall>i<length T. 1 \<le> sel ! i \<and> sel ! i \<le> int (length (table self)) \<longrightarrow>
           (\<exists>v. piece_emf (table self ! (nat (sel ! i) - 1)) d [T ! i] = Inr [v] \<and> vs ! i = Fin v)"
      by blast
    have "vs = map (\<lambda>t. Fin (g t)) T"
    proof (rule nth_equalityI)
      show "length vs = length (map (\<lambda>t. Fin (g t)) T)" using l by simp
    next
      fix i assume "i < length vs"
      with l have i: "i < length T" by simp
      then have x: "lo \<le> T ! i" "T ! i \<le> hi" using all by auto
      have si: "sel ! i = selv (T ! i)" using i by (simp add: sel)
      from selector_valid(1,2,3)[OF chk ne, of "selv (T ! i)" "T ! i"] x hi'
      have "1 \<le> selv (T ! i) \<and> selv (T ! i) \<le> int (length tbl)"
        unfolding selv_def by linarith
      with v[rule_format, OF i] si t obtain w where
        w: "piece_emf (tbl ! (nat (selv (T ! i)) - 1)) d [T ! i] = Inr [w]" "vs ! i = Fin w"
        by auto
      from w(1) have "g (T ! i) = w" by (simp add: g_def)
      with w(2) i show "vs ! i = map (\<lambda>t. Fin (g t)) T ! i" by simp
    qed
    with c show ?thesis by simp
  qed
  then show ?thesis by blast
qed

lemma fmul_one [simp]: "fmul v (Fin 1) = v"
  by (cases v) simp_all

lemma TR_init_Inr:
  "TR_init fn ty co = Inr self \<Longrightarrow>
     func self = fn \<and> mats_Tunits_from self = Tunits_mat_C_from
     \<and> mats_Tunits_to self = Tunits_mat_C_to"
  by (auto simp: TR_init_def split: if_splits)

lemma ex_tc_init: "TR_init ex_func ''Type X'' ''A - B'' = Inr ex_tc"
  by (simp add: TR_init_def ex_func_def ex_tc_def)

lemma ex_hot_tc_init: "TR_init ex_hot_func ''Type Y'' ''A - B'' = Inr ex_hot_tc"
  by (simp add: TR_init_def ex_hot_func_def ex_hot_tc_def)

lemma affine_fun: "affine m = (\<lambda>x. x * fst (row0 m) + snd (row0 m))"
  by (rule ext) (simp add: affine_def split: prod.splits)

text \<open>The forward methods with the body of the Celsius method rewritten in the shape of the others.\<close>

lemma EmfForward_unfold:
  assumes tr: "TR_init fn ty co = Inr self"
  shows "EmfForward u self T Tref d pol =
     (case PGPF_call fn (map (affine (Tunits_mat_C_from u)) T) d pol of
        Inl e \<Rightarrow> Inl e
      | Inr f_T \<Rightarrow>
          if d \<noteq> 0 then
            Inr (map (\<lambda>v. fmul v (Fin (fst (row0 (Tunits_mat_C_from u)) powi d))) f_T)
          else
            (case PGPF_call1 fn (affine (Tunits_mat_C_from u) Tref) d pol of
               Inl e \<Rightarrow> Inl e
             | Inr f_ref \<Rightarrow> Inr (map (\<lambda>v. fsub v f_ref) f_T)))"
proof -
  from TR_init_Inr[OF tr] have f: "func self = fn"
    and m: "mats_Tunits_from self = Tunits_mat_C_from" by auto
  show ?thesis
  proof (cases u)
    case Celsius
    then show ?thesis
      by (simp add: emf_mVC_def f affine_fun row0_def cong: sum.case_cong if_cong)
  next
    case Fahrenheit
    then show ?thesis
      by (simp add: emf_mVF_def emf_mV_unit_def f m affine_fun row0_def cong: sum.case_cong if_cong)
  next
    case Kelvin
    then show ?thesis
      by (simp add: emf_mVK_def emf_mV_unit_def f m affine_fun row0_def cong: sum.case_cong if_cong)
  next
    case Rankine
    then show ?thesis
      by (simp add: emf_mVR_def emf_mV_unit_def f m affine_fun row0_def cong: sum.case_cong if_cong)
  qed
qed

lemma PGPF_call1_in_range:
  assumes "\<forall>T. (\<forall>t\<in>set T. lo \<le> t \<and> t \<le> hi) \<longrightarrow>
               PGPF_call self T d pol = Inr (map (\<lambda>t. Fin (g t)) T)"
    and "lo \<le> x" "x \<le> hi"
  shows "PGPF_call1 self x d pol = Inr (Fin (g x))"
proof -
  from assms(1)[rule_format, of "[x]"] assms(2,3)
  have "PGPF_call self [x] d pol = Inr [Fin (g x)]" by simp
  then show ?thesis by (simp add: PGPF_call1_def)
qed

lemma Tref_default_ice: "affine (Tunits_mat_C_from u) (Tref_default u) = 0"
  by (cases u) (simp_all add: affine_def row0_def)

lemma ex_func_range: "minT ex_func = Inr 0" "maxT ex_func = Inr 3"
  by (simp_all add: minT_def maxT_def ex_func_def ex_table_def)

lemma policy_raise: "''raise'' \<in> set [''raise'', ''nan'', ''extrapolate'']"
  by simp

section \<open>Calls on one temperature, and the two stages of the inverse\<close>

lemma item_single: "length vs = Suc 0 \<Longrightarrow> item vs = vs ! 0"
  by (cases vs) auto

text \<open>A call on one temperature at derivative order 0, whose loop never raises.\<close>

lemma PGPF_call1_order0:
  assumes lo: "minT self = Inr lo"
  shows "\<exists>s w. 0 \<le> s \<and> piece_emf (table self ! (nat s - 1)) 0 [t] = Inr [w]
      \<and> (\<forall>pol. pol \<in> set [''raise'', ''nan'', ''extrapolate''] \<longrightarrow>
          (1 \<le> s \<and> s \<le> int (length (table self)) \<longrightarrow> PGPF_call1 self t 0 pol = Inr (Fin w))
        \<and> (\<not> (1 \<le> s \<and> s \<le> int (length (table self))) \<longrightarrow>
              (pol = ''raise'' \<longrightarrow> (\<exists>e. PGPF_call1 self t 0 pol = Inl e))
            \<and> (pol = ''nan'' \<longrightarrow> PGPF_call1 self t 0 pol = Inr NaN)
            \<and> (pol = ''extrapolate'' \<longrightarrow> (\<exists>x. PGPF_call1 self t 0 pol = Inr (Fin x)))))"
proof -
  let ?st = "(map (\<lambda>t. if lo \<le> t then 1 else 0) [t], [None])"
  have d0: "(0::int) \<le> 0" and d3: "(0::int) \<le> 3 \<or> (\<forall>p\<in>set (table self). ec p = None)"
    by simp_all
  from table_loop_supported[OF d0 d3, of "[t]" ?st] obtain sel ch
    where loop: "table_loop (table self) 0 [t] ?st = Inr (sel, ch)" by auto
  from table_loop_Inr[OF loop] have len: "length sel = Suc 0" by simp
  define s where "s = sel ! 0"
  define n where "n = length (table self)"
  have s0: "0 \<le> s" using loop_selector[OF loop] by (simp add: s_def)
  have cond: "(\<exists>i<length sel. sel ! i \<le> 0 \<or> int (length (table self)) < sel ! i)
                = (\<not> (1 \<le> s \<and> s \<le> int n))"
    using len by (auto simp: s_def n_def)
  have ex_w: "\<exists>w. piece_emf p 0 [t] = Inr [w]" for p
  proof -
    from piece_emf_total[OF d0, of p "[t]"] obtain emf where e: "piece_emf p 0 [t] = Inr emf"
      by auto
    from piece_emf_Inr_nth[OF e] have "piece_emf p 0 [t] = Inr [emf ! 0]" by simp
    then show ?thesis by blast
  qed
  from ex_w obtain w where w: "piece_emf (table self ! (nat s - 1)) 0 [t] = Inr [w]" by blast
  have main: "(1 \<le> s \<and> s \<le> int n \<longrightarrow> PGPF_call1 self t 0 pol = Inr (Fin w))
        \<and> (\<not> (1 \<le> s \<and> s \<le> int n) \<longrightarrow>
              (pol = ''raise'' \<longrightarrow> (\<exists>e. PGPF_call1 self t 0 pol = Inl e))
            \<and> (pol = ''nan'' \<longrightarrow> PGPF_call1 self t 0 pol = Inr NaN)
            \<and> (pol = ''extrapolate'' \<longrightarrow> (\<exists>x. PGPF_call1 self t 0 pol = Inr (Fin x))))"
    if pol: "pol \<in> set [''raise'', ''nan'', ''extrapolate'']" for pol
  proof (cases "1 \<le> s \<and> s \<le> int n")
    case True
    with cond have nr: "\<not> (pol = ''raise''
        \<and> (\<exists>i<length sel. sel ! i \<le> 0 \<or> int (length (table self)) < sel ! i))" by simp
    from PGPF_call_values[OF pol lo loop nr] True w obtain vs where
      "PGPF_call self [t] 0 pol = Inr vs" "length vs = Suc 0" "vs ! 0 = Fin w"
      by (auto simp: s_def n_def)
    then have "PGPF_call1 self t 0 pol = Inr (Fin w)"
      by (simp add: PGPF_call1_def item_single)
    with True show ?thesis by blast
  next
    case False
    with cond have out: "\<exists>i<length sel. sel ! i \<le> 0 \<or> int (length (table self)) < sel ! i"
      by simp
    have r: "\<exists>e. PGPF_call1 self t 0 pol = Inl e" if "pol = ''raise''"
      using PGPF_call_unfold[OF pol lo loop] out that by (simp add: PGPF_call1_def)
    have nr: "\<not> (pol = ''raise''
        \<and> (\<exists>i<length sel. sel ! i \<le> 0 \<or> int (length (table self)) < sel ! i))"
      if "pol \<noteq> ''raise''" using that by simp
    from False s0 have sc: "s \<le> 0 \<or> int n < s" by linarith
    have na: "PGPF_call1 self t 0 pol = Inr NaN" if p: "pol = ''nan''"
    proof -
      from p have "pol \<noteq> ''raise''" by simp
      from PGPF_call_values[OF pol lo loop nr[OF this]] sc p obtain vs where
        "PGPF_call self [t] 0 pol = Inr vs" "length vs = Suc 0" "vs ! 0 = NaN"
        by (auto simp: s_def n_def)
      then show ?thesis by (simp add: PGPF_call1_def item_single)
    qed
    have ex: "\<exists>x. PGPF_call1 self t 0 pol = Inr (Fin x)" if p: "pol = ''extrapolate''"
    proof -
      from p have pr: "pol \<noteq> ''raise''" and pn: "pol \<noteq> ''nan''" by simp_all
      from PGPF_call_values[OF pol lo loop nr[OF pr]] sc pn obtain vs x where
        "PGPF_call self [t] 0 pol = Inr vs" "length vs = Suc 0" "vs ! 0 = Fin x"
        by (auto simp: s_def n_def)
      then have "PGPF_call1 self t 0 pol = Inr (Fin x)"
        by (simp add: PGPF_call1_def item_single)
      then show ?thesis by blast
    qed
    from False r na ex show ?thesis by blast
  qed
  from s0 w main show ?thesis unfolding n_def by blast
qed

lemma policy_nan: "''nan'' \<in> set [''raise'', ''nan'', ''extrapolate'']"
  by simp

lemma policy_extrapolate: "''extrapolate'' \<in> set [''raise'', ''nan'', ''extrapolate'']"
  by simp

lemma nan_Fin_imp_raise:
  assumes lo: "minT self = Inr lo"
    and n: "PGPF_call1 self t 0 ''nan'' = Inr (Fin v)"
  shows "PGPF_call1 self t 0 ''raise'' = Inr (Fin v)"
proof -
  from PGPF_call1_order0[OF lo, of t] obtain s w where
    a: "\<forall>pol. pol \<in> set [''raise'', ''nan'', ''extrapolate''] \<longrightarrow>
          (1 \<le> s \<and> s \<le> int (length (table self)) \<longrightarrow> PGPF_call1 self t 0 pol = Inr (Fin w))
        \<and> (\<not> (1 \<le> s \<and> s \<le> int (length (table self))) \<longrightarrow>
              (pol = ''raise'' \<longrightarrow> (\<exists>e. PGPF_call1 self t 0 pol = Inl e))
            \<and> (pol = ''nan'' \<longrightarrow> PGPF_call1 self t 0 pol = Inr NaN)
            \<and> (pol = ''extrapolate'' \<longrightarrow> (\<exists>x. PGPF_call1 self t 0 pol = Inr (Fin x))))"
    by blast
  from a[rule_format, OF policy_nan] n have r: "1 \<le> s \<and> s \<le> int (length (table self))"
    by auto
  with a[rule_format, OF policy_nan] n have "w = v" by simp
  with a[rule_format, OF policy_raise] r show ?thesis by simp
qed

lemma raise_gives_Fin:
  assumes lo: "minT self = Inr lo"
    and r: "PGPF_call1 self t 0 ''raise'' = Inr v"
  shows "\<exists>w. v = Fin w"
proof -
  from PGPF_call1_order0[OF lo, of t] obtain s w where
    a: "\<forall>pol. pol \<in> set [''raise'', ''nan'', ''extrapolate''] \<longrightarrow>
          (1 \<le> s \<and> s \<le> int (length (table self)) \<longrightarrow> PGPF_call1 self t 0 pol = Inr (Fin w))
        \<and> (\<not> (1 \<le> s \<and> s \<le> int (length (table self))) \<longrightarrow>
              (pol = ''raise'' \<longrightarrow> (\<exists>e. PGPF_call1 self t 0 pol = Inl e))
            \<and> (pol = ''nan'' \<longrightarrow> PGPF_call1 self t 0 pol = Inr NaN)
            \<and> (pol = ''extrapolate'' \<longrightarrow> (\<exists>x. PGPF_call1 self t 0 pol = Inr (Fin x))))"
    by blast
  from a[rule_format, OF policy_raise] r show ?thesis by (cases "1 \<le> s \<and> s \<le> int (length (table self))") auto
qed

lemma nan_total:
  assumes lo: "minT self = Inr lo"
  shows "\<exists>v. PGPF_call1 self t 0 ''nan'' = Inr v"
proof -
  from PGPF_call1_order0[OF lo, of t] obtain s w where
    a: "\<forall>pol. pol \<in> set [''raise'', ''nan'', ''extrapolate''] \<longrightarrow>
          (1 \<le> s \<and> s \<le> int (length (table self)) \<longrightarrow> PGPF_call1 self t 0 pol = Inr (Fin w))
        \<and> (\<not> (1 \<le> s \<and> s \<le> int (length (table self))) \<longrightarrow>
              (pol = ''raise'' \<longrightarrow> (\<exists>e. PGPF_call1 self t 0 pol = Inl e))
            \<and> (pol = ''nan'' \<longrightarrow> PGPF_call1 self t 0 pol = Inr NaN)
            \<and> (pol = ''extrapolate'' \<longrightarrow> (\<exists>x. PGPF_call1 self t 0 pol = Inr (Fin x))))"
    by blast
  from a[rule_format, OF policy_nan] show ?thesis
    by (cases "1 \<le> s \<and> s \<le> int (length (table self))") auto
qed

lemma newton_try_Inr:
  assumes lo: "minT self = Inr lo"
    and n: "newton_try optimize self (Fin V) Ts Vtol = Inr T"
  shows "\<exists>v. PGPF_call1 self T 0 ''raise'' = Inr (Fin v) \<and> \<bar>v - V\<bar> \<le> Vtol"
proof -
  from n obtain v where c: "PGPF_call1 self T 0 ''raise'' = Inr v"
    and r: "\<not> fgt (fabs (fsub v (Fin V))) Vtol"
    by (auto simp: newton_try_def split: sum.splits if_splits)
  from raise_gives_Fin[OF lo c] obtain w where "v = Fin w" by blast
  with c r show ?thesis by auto
qed

lemma brentq_except_cases:
  assumes lo: "minT self = Inr lo" and hi: "maxT self = Inr hi"
  shows "(brentq optimize (fun0 self (Fin V)) lo hi = Inl SameSigns \<longrightarrow>
            brentq_except optimize self (Fin V) Vtol = Inl VoltageNotInRange)
       \<and> (\<forall>e. brentq optimize (fun0 self (Fin V)) lo hi = Inl e \<and> e \<noteq> SameSigns \<longrightarrow>
            brentq_except optimize self (Fin V) Vtol = Inl e)
       \<and> (\<forall>T. brentq optimize (fun0 self (Fin V)) lo hi = Inr T \<longrightarrow>
            brentq_except optimize self (Fin V) Vtol = Inl DidNotConverge
            \<or> brentq_except optimize self (Fin V) Vtol = Inr T
              \<and> (\<exists>v. PGPF_call1 self T 0 ''raise'' = Inr (Fin v) \<and> \<bar>v - V\<bar> \<le> Vtol))"
proof -
  have c: "brentq_except optimize self (Fin V) Vtol = Inl DidNotConverge
            \<or> brentq_except optimize self (Fin V) Vtol = Inr T
              \<and> (\<exists>v. PGPF_call1 self T 0 ''raise'' = Inr (Fin v) \<and> \<bar>v - V\<bar> \<le> Vtol)"
    if b: "brentq optimize (fun0 self (Fin V)) lo hi = Inr T" for T
  proof -
    from nan_total[OF lo, of T] obtain v where v: "PGPF_call1 self T 0 ''nan'' = Inr v" by blast
    show ?thesis
    proof (cases "fle (fabs (fsub v (Fin V))) Vtol")
      case True
      then obtain w where w: "v = Fin w" "\<bar>w - V\<bar> \<le> Vtol" by (cases v) auto
      from nan_Fin_imp_raise[OF lo v[unfolded w(1)]] w(2)
      have "\<exists>v. PGPF_call1 self T 0 ''raise'' = Inr (Fin v) \<and> \<bar>v - V\<bar> \<le> Vtol" by blast
      moreover from True b v have "brentq_except optimize self (Fin V) Vtol = Inr T"
        by (simp add: brentq_except_def lo hi)
      ultimately show ?thesis by blast
    next
      case False
      with b v have "brentq_except optimize self (Fin V) Vtol = Inl DidNotConverge"
        by (simp add: brentq_except_def lo hi)
      then show ?thesis by blast
    qed
  qed
  have a: "brentq_except optimize self (Fin V) Vtol = Inl VoltageNotInRange"
    if "brentq optimize (fun0 self (Fin V)) lo hi = Inl SameSigns"
    using that by (simp add: brentq_except_def lo hi)
  have b: "brentq_except optimize self (Fin V) Vtol = Inl e"
    if "brentq optimize (fun0 self (Fin V)) lo hi = Inl e" "e \<noteq> SameSigns" for e
    using that by (simp add: brentq_except_def lo hi)
  from a b c show ?thesis by blast
qed

lemma PGPF_inverse_stages:
  assumes lo: "minT self = Inr lo" and hi: "maxT self = Inr hi"
  shows "\<exists>Ts. PGPF_inverse (Some optimize) self V Tstart Vtol =
           (case newton_try optimize self V Ts Vtol of
              Inr T \<Rightarrow> Inr T
            | Inl e \<Rightarrow> brentq_except optimize self V Vtol)"
  by (cases Tstart) (auto simp: PGPF_inverse_def lo hi)

lemmas eval_inverse =
  PGPF_inverse_def newton_try_def brentq_except_def fun0_def fun1_def fun2_def PGPF_call1_def
  ex_optimize_def ex_optimize_failing_def

lemma inverse_CmV_with_start_guess:
  "inverse_CmV scipy self emf Tref (Some g) Vtol =
     (case PGPF_call1 (func self) Tref 0 ''raise'' of
        Inl e \<Rightarrow> Inl e
      | Inr f_ref \<Rightarrow> Inl (NameError ''mul''))"
  by (simp add: inverse_CmV_def split: sum.splits)

section \<open>Segments without a Gaussian\<close>

lemma ex_quartic_func_init:
  "PGPF_init ex_quartic_table Celsius MilliVolt ''example'' ''ITS-90'' = Inr ex_quartic_func"
  by (simp add: PGPF_init_def ex_quartic_table_def ex_quartic_func_def)

lemma ex_quartic_func_range: "minT ex_quartic_func = Inr 0" "maxT ex_quartic_func = Inr 2"
  by (simp_all add: minT_def maxT_def ex_quartic_func_def ex_quartic_table_def)

lemma ex_gauss_func_range: "minT ex_gauss_func = Inr 0" "maxT ex_gauss_func = Inr 1"
  by (simp_all add: minT_def maxT_def ex_gauss_func_def ex_gauss_table_def)

lemma piece_emf_polynomial:
  "ec p = None \<Longrightarrow> 0 \<le> d \<Longrightarrow>
     piece_emf p d T = Inr (map (polyval (polyder_iter (nat d) (coefs p))) T)"
  by (simp add: piece_emf_def polyder_def)

section \<open>Unit conversion\<close>

text \<open>
  Claim C9. For each of the four temperature units, converting a value from Celsius with
  the stored 'to' coefficients and back with the stored 'from' coefficients gives the value
  again, and so does the opposite order: the two affine maps of a unit are inverse to each
  other, over the real numbers.
\<close>

theorem unit_round_trip:
  "affine (Tunits_mat_C_from u) (affine (Tunits_mat_C_to u) x) = x
   \<and> affine (Tunits_mat_C_to u) (affine (Tunits_mat_C_from u) x) = x"
  by (cases u) (simp_all add: affine_def row0_def field_simps)

section \<open>Construction\<close>

text \<open>
  Claim C8. For a non-empty list of segments the constructor succeeds exactly when every
  segment has \<open>tmin \<le> tmax\<close> and every segment starts where the one before it ends.
  When it does not succeed it raises one of the two errors of the table check, and when
  it succeeds the stored table is the list given, is not empty, and is ascending and
  contiguous.
\<close>

theorem PGPF_init_succeeds_iff:
  assumes ne: "tbl \<noteq> []"
  shows "((\<exists>self. PGPF_init tbl Tu Vu src cal = Inr self) =
            ((\<forall>i<length tbl. tmin (tbl ! i) \<le> tmax (tbl ! i))
             \<and> (\<forall>i. Suc i < length tbl \<longrightarrow> tmin (tbl ! Suc i) = tmax (tbl ! i))))
       \<and> ((\<forall>self. PGPF_init tbl Tu Vu src cal \<noteq> Inr self) \<longrightarrow>
            PGPF_init tbl Tu Vu src cal = Inl NotAscending
            \<or> PGPF_init tbl Tu Vu src cal = Inl NotContiguous)
       \<and> (\<forall>self. PGPF_init tbl Tu Vu src cal = Inr self \<longrightarrow>
            table self = tbl \<and> table self \<noteq> []
            \<and> (\<forall>i<length (table self). tmin (table self ! i) \<le> tmax (table self ! i))
            \<and> (\<forall>i. Suc i < length (table self) \<longrightarrow>
                   tmin (table self ! Suc i) = tmax (table self ! i)))"
proof -
  from ne obtain p0 ps where tbl: "tbl = p0 # ps" by (cases tbl) auto
  define ok where "ok = ((\<forall>i<length tbl. tmin (tbl ! i) \<le> tmax (tbl ! i))
             \<and> (\<forall>i. Suc i < length tbl \<longrightarrow> tmin (tbl ! Suc i) = tmax (tbl ! i)))"
  have nth_form: "(\<forall>i<length tbl. tmin (tbl ! i) \<le> tmax (tbl ! i)
       \<and> tmin (tbl ! i) = (if i = 0 then tmin p0 else tmax (tbl ! (i - 1)))) = ok"
    (is "?A = ok")
  proof
    assume a: ?A
    have "tmin (tbl ! Suc i) = tmax (tbl ! i)" if "Suc i < length tbl" for i
      using a[rule_format, OF that] by simp
    with a show ok unfolding ok_def by blast
  next
    assume o: ok
    show ?A
    proof (intro allI impI)
      fix i assume i: "i < length tbl"
      show "tmin (tbl ! i) \<le> tmax (tbl ! i)
              \<and> tmin (tbl ! i) = (if i = 0 then tmin p0 else tmax (tbl ! (i - 1)))"
      proof (cases i)
        case 0
        from i 0 have "0 < length tbl" by simp
        with o have "tmin (tbl ! 0) \<le> tmax (tbl ! 0)" unfolding ok_def by blast
        with 0 show ?thesis by (simp add: tbl)
      next
        case (Suc j)
        with o i show ?thesis unfolding ok_def by auto
      qed
    qed
  qed
  have chk: "(check_table (tmin p0) tbl = Inr ()) = ok"
    using check_table_nth[of "tmin p0" tbl] nth_form by simp
  have init: "PGPF_init tbl Tu Vu src cal =
      (case check_table (tmin p0) tbl of Inl e \<Rightarrow> Inl e
       | Inr _ \<Rightarrow> Inr \<lparr>table = tbl, Tunits = Tu, Vunits = Vu, source = src, calibration = cal\<rparr>)"
    unfolding PGPF_init_def tbl by simp
  have one: "(\<exists>self. PGPF_init tbl Tu Vu src cal = Inr self) = ok"
  proof (cases "check_table (tmin p0) tbl")
    case (Inl e)
    with chk init show ?thesis by auto
  next
    case (Inr u)
    with chk init show ?thesis by auto
  qed
  have two: "PGPF_init tbl Tu Vu src cal = Inl NotAscending
            \<or> PGPF_init tbl Tu Vu src cal = Inl NotContiguous"
    if "\<forall>self. PGPF_init tbl Tu Vu src cal \<noteq> Inr self"
  proof (cases "check_table (tmin p0) tbl")
    case (Inl e)
    with check_table_error[OF Inl] init show ?thesis by auto
  next
    case (Inr u)
    with init that show ?thesis by simp
  qed
  have three: "table self = tbl \<and> table self \<noteq> []
            \<and> (\<forall>i<length (table self). tmin (table self ! i) \<le> tmax (table self ! i))
            \<and> (\<forall>i. Suc i < length (table self) \<longrightarrow>
                   tmin (table self ! Suc i) = tmax (table self ! i))"
    if s: "PGPF_init tbl Tu Vu src cal = Inr self" for self
  proof -
    from PGPF_init_Inr[OF s] have t: "table self = tbl" by simp
    from s one have ok by blast
    with t ne show ?thesis by (simp add: ok_def)
  qed
  from one two three show ?thesis unfolding ok_def by blast
qed

theorem PGPF_init_succeeds_iff_witness:
  "ex_table \<noteq> []
   \<and> PGPF_init ex_table Celsius MilliVolt ''example'' ''ITS-90'' = Inr ex_func
   \<and> table ex_func = ex_table \<and> table ex_func \<noteq> []
   \<and> tmin (table ex_func ! 0) \<le> tmax (table ex_func ! 0)
   \<and> tmin (table ex_func ! Suc 0) = tmax (table ex_func ! 0)"
proof -
  have ne: "ex_table \<noteq> []" by (simp add: ex_table_def)
  have i: "PGPF_init ex_table Celsius MilliVolt ''example'' ''ITS-90'' = Inr ex_func"
    by (simp add: PGPF_init_def ex_table_def ex_func_def)
  note inv = PGPF_init_succeeds_iff[OF ne, THEN conjunct2, THEN conjunct2, rule_format, OF i]
  have l: "0 < length (table ex_func)" "Suc 0 < length (table ex_func)"
    by (simp_all add: ex_func_def ex_table_def)
  from inv ne have a: "table ex_func = ex_table" "table ex_func \<noteq> []" by simp_all
  from inv have "\<forall>i<length (table ex_func). tmin (table ex_func ! i) \<le> tmax (table ex_func ! i)"
    by (elim conjE)
  from this[rule_format, OF l(1)] have b: "tmin (table ex_func ! 0) \<le> tmax (table ex_func ! 0)" .
  from inv have "\<forall>i. Suc i < length (table ex_func) \<longrightarrow>
                   tmin (table ex_func ! Suc i) = tmax (table ex_func ! i)"
    by (elim conjE)
  from this[rule_format, OF l(2)]
  have c: "tmin (table ex_func ! Suc 0) = tmax (table ex_func ! 0)" .
  show ?thesis by (intro conjI ne i a b c)
qed

section \<open>The out-of-range policy argument\<close>

text \<open>
  Claim C10. A call whose policy string is none of "raise", "nan" and "extrapolate" fails
  with the error that names the string, for every input array, every derivative order
  and every table: the check precedes the loop over the segments, so no segment is
  evaluated and there is no partial result.
\<close>

theorem invalid_policy_rejected_first:
  "out_of_range \<notin> set [''raise'', ''nan'', ''extrapolate''] \<Longrightarrow>
     PGPF_call self T derivative out_of_range = Inl (InvalidOutOfRange out_of_range)"
  by (simp add: PGPF_call_def)

theorem invalid_policy_rejected_first_witness:
  "''clip'' \<notin> set [''raise'', ''nan'', ''extrapolate'']
   \<and> PGPF_call ex_gauss_func [- 5, 1 / 2] 4 ''clip'' = Inl (InvalidOutOfRange ''clip'')"
proof -
  have h: "''clip'' \<notin> set [''raise'', ''nan'', ''extrapolate'']" by simp
  show ?thesis by (rule conjI[OF h invalid_policy_rejected_first[OF h]])
qed

section \<open>Segment selection\<close>



section \<open>Derivative orders above three\<close>

text \<open>
  Claim C3, as amended. For a table that passed the constructor (first minimum \<open>lo\<close>, last
  maximum \<open>hi\<close>), a valid policy and a derivative order above 3, the call fails with the
  unsupported-derivative error exactly when some segment has a Gaussian term, whatever
  the inputs are. When no segment has one, the call returns an array of the length of the
  input, under the policies "nan" and "extrapolate" for every input and under "raise"
  when all inputs are in range. Its element for an input in \<open>[lo, hi]\<close> is the value at
  that input of the derivative of that order (as \<^verbatim>\<open>numpy.polyder\<close> computes it) of the
  polynomial of the selected segment, which is the first segment that contains the input.
  Its element for an input below \<open>lo\<close> or above \<open>hi\<close> is not-a-number under "nan", and
  under "extrapolate" the same derivative of the polynomial of the first or of the last
  segment.
\<close>

theorem derivative_above_3_fails_iff_gaussian:
  assumes init: "PGPF_init tbl Tu Vu src cal = Inr self"
    and lo: "minT self = Inr lo" and hi: "maxT self = Inr hi"
    and d: "3 < d"
    and pol: "pol \<in> set [''raise'', ''nan'', ''extrapolate'']"
  shows "((PGPF_call self T d pol = Inl UnsupportedDerivative) = (\<exists>p\<in>set tbl. ec p \<noteq> None))
       \<and> ((\<forall>p\<in>set tbl. ec p = None)
            \<and> (pol \<noteq> ''raise'' \<or> (\<forall>t\<in>set T. lo \<le> t \<and> t \<le> hi)) \<longrightarrow>
           (\<exists>vs. PGPF_call self T d pol = Inr vs \<and> length vs = length T
              \<and> (\<forall>i<length T.
                    (lo \<le> T ! i \<and> T ! i \<le> hi \<longrightarrow>
                       (\<exists>k<length tbl. tmin (tbl ! k) \<le> T ! i \<and> T ! i \<le> tmax (tbl ! k)
                          \<and> (\<forall>j<k. tmax (tbl ! j) < T ! i)
                          \<and> vs ! i = Fin (polyval (polyder_iter (nat d) (coefs (tbl ! k))) (T ! i))))
                  \<and> (T ! i < lo \<longrightarrow>
                       vs ! i = (if pol = ''nan'' then NaN
                                 else Fin (polyval (polyder_iter (nat d) (coefs (tbl ! 0))) (T ! i))))
                  \<and> (hi < T ! i \<longrightarrow>
                       vs ! i = (if pol = ''nan'' then NaN
                                 else Fin (polyval (polyder_iter (nat d) (coefs (last tbl)))
                                             (T ! i)))))))"
    (is "?A \<and> (?H \<longrightarrow> ?C)")
proof -
  from PGPF_init_Inr[OF init] lo hi have t: "table self = tbl" and ne: "tbl \<noteq> []"
    and chk: "check_table lo tbl = Inr ()" and hi': "hi = tmax (last tbl)" by auto
  from d have d0: "0 \<le> d" by simp
  let ?st = "(map (\<lambda>t. if lo \<le> t then 1 else 0) T, [None])"
  show ?thesis
  proof (cases "\<exists>p\<in>set tbl. ec p \<noteq> None")
    case True
    from table_loop_unsupported[OF d, of tbl T ?st] True
    have "table_loop (table self) d T ?st = Inl UnsupportedDerivative" by (simp add: t)
    with pol lo have "PGPF_call self T d pol = Inl UnsupportedDerivative"
      by (simp add: PGPF_call_def)
    with True have A: ?A by simp
    have B: "?H \<longrightarrow> ?C"
    proof
      assume ?H
      then have "\<forall>p\<in>set tbl. ec p = None" ..
      with True have False by auto
      then show ?C ..
    qed
    from A B show ?thesis ..
  next
    case False
    then have nog: "\<forall>p\<in>set tbl. ec p = None" by blast
    from table_loop_supported[OF d0, of tbl T ?st] nog t obtain sel ch
      where loop: "table_loop (table self) d T ?st = Inr (sel, ch)" by auto
    note unf = PGPF_call_unfold[OF pol lo loop]
    have a: "PGPF_call self T d pol \<noteq> Inl UnsupportedDerivative"
    proof (cases "pol = ''raise''
        \<and> (\<exists>i<length sel. sel ! i \<le> 0 \<or> int (length (table self)) < sel ! i)")
      case True
      then show ?thesis unfolding unf by (simp only: if_True) simp
    next
      case F: False
      from PGPF_call_values[OF pol lo loop F] show ?thesis by auto
    qed
    have pv: "piece_emf p d [x] = Inr [polyval (polyder_iter (nat d) (coefs p)) x]"
      if "p \<in> set tbl" for p x
      using piece_emf_polynomial[OF nog[rule_format, OF that] d0, of "[x]"] by simp
    have b: "\<exists>vs. PGPF_call self T d pol = Inr vs \<and> length vs = length T
              \<and> (\<forall>i<length T.
                    (lo \<le> T ! i \<and> T ! i \<le> hi \<longrightarrow>
                       (\<exists>k<length tbl. tmin (tbl ! k) \<le> T ! i \<and> T ! i \<le> tmax (tbl ! k)
                          \<and> (\<forall>j<k. tmax (tbl ! j) < T ! i)
                          \<and> vs ! i = Fin (polyval (polyder_iter (nat d) (coefs (tbl ! k))) (T ! i))))
                  \<and> (T ! i < lo \<longrightarrow>
                       vs ! i = (if pol = ''nan'' then NaN
                                 else Fin (polyval (polyder_iter (nat d) (coefs (tbl ! 0))) (T ! i))))
                  \<and> (hi < T ! i \<longrightarrow>
                       vs ! i = (if pol = ''nan'' then NaN
                                 else Fin (polyval (polyder_iter (nat d) (coefs (last tbl)))
                                             (T ! i)))))"
      if c: "pol \<noteq> ''raise'' \<or> (\<forall>t\<in>set T. lo \<le> t \<and> t \<le> hi)"
    proof -
      have nr: "\<not> (pol = ''raise''
          \<and> (\<exists>i<length sel. sel ! i \<le> 0 \<or> int (length (table self)) < sel ! i))"
      proof (cases "pol = ''raise''")
        case True
        with c have "\<not> (\<exists>t\<in>set T. t < lo \<or> hi < t)" by auto
        with PGPF_call_raise(3)[OF init lo hi loop] show ?thesis by simp
      next
        case False
        then show ?thesis by simp
      qed
      from PGPF_call_values[OF pol lo loop nr] obtain vs where
        call: "PGPF_call self T d pol = Inr vs" and len: "length vs = length T"
        and V: "\<forall>i<length T.
          (1 \<le> sel ! i \<and> sel ! i \<le> int (length (table self)) \<longrightarrow>
             (\<exists>v. piece_emf (table self ! (nat (sel ! i) - 1)) d [T ! i] = Inr [v] \<and> vs ! i = Fin v))
        \<and> (sel ! i \<le> 0 \<longrightarrow>
             (if pol = ''nan'' then vs ! i = NaN
              else \<exists>v. piece_emf (table self ! 0) d [T ! i] = Inr [v] \<and> vs ! i = Fin v))
        \<and> (int (length (table self)) < sel ! i \<longrightarrow>
             (if pol = ''nan'' then vs ! i = NaN
              else \<exists>v. piece_emf (last (table self)) d [T ! i] = Inr [v] \<and> vs ! i = Fin v))"
        by blast
      have elem: "(lo \<le> T ! i \<and> T ! i \<le> hi \<longrightarrow>
                       (\<exists>k<length tbl. tmin (tbl ! k) \<le> T ! i \<and> T ! i \<le> tmax (tbl ! k)
                          \<and> (\<forall>j<k. tmax (tbl ! j) < T ! i)
                          \<and> vs ! i = Fin (polyval (polyder_iter (nat d) (coefs (tbl ! k))) (T ! i))))
                  \<and> (T ! i < lo \<longrightarrow>
                       vs ! i = (if pol = ''nan'' then NaN
                                 else Fin (polyval (polyder_iter (nat d) (coefs (tbl ! 0))) (T ! i))))
                  \<and> (hi < T ! i \<longrightarrow>
                       vs ! i = (if pol = ''nan'' then NaN
                                 else Fin (polyval (polyder_iter (nat d) (coefs (last tbl)))
                                             (T ! i))))"
        if i: "i < length T" for i
      proof -
        define x where "x = T ! i"
        define s where "s = sel ! i"
        have sv: "s = (if lo \<le> x then 1 else 0) + int (length (filter (\<lambda>p. tmax p < x) tbl))"
          using loop_selector[OF loop] i by (simp add: s_def x_def t)
        note S = selector_valid[OF chk ne sv]
        note Vi = V[rule_format, OF i, folded s_def x_def, unfolded t]
        have p0: "tbl ! 0 \<in> set tbl" and pl: "last tbl \<in> set tbl" using ne by simp_all
        have one: "\<exists>k<length tbl. tmin (tbl ! k) \<le> x \<and> x \<le> tmax (tbl ! k)
                          \<and> (\<forall>j<k. tmax (tbl ! j) < x)
                          \<and> vs ! i = Fin (polyval (polyder_iter (nat d) (coefs (tbl ! k))) x)"
          if r: "lo \<le> x" "x \<le> hi"
        proof -
          from S(4)[OF r(1)] r(2) hi' have k: "nat s - 1 < length tbl"
            "tmin (tbl ! (nat s - 1)) \<le> x" "x \<le> tmax (tbl ! (nat s - 1))"
            "\<forall>j<nat s - 1. tmax (tbl ! j) < x" by simp_all
          from S(1) S(2) S(3) r hi' have "1 \<le> s \<and> s \<le> int (length tbl)" by linarith
          with Vi obtain v where v: "piece_emf (tbl ! (nat s - 1)) d [x] = Inr [v]"
            "vs ! i = Fin v" by blast
          from k(1) have "tbl ! (nat s - 1) \<in> set tbl" by simp
          from pv[OF this, of x] v
          have "vs ! i = Fin (polyval (polyder_iter (nat d) (coefs (tbl ! (nat s - 1)))) x)"
            by simp
          with k show ?thesis by blast
        qed
        have two: "vs ! i = (if pol = ''nan'' then NaN
                                 else Fin (polyval (polyder_iter (nat d) (coefs (tbl ! 0))) x))"
          if r: "x < lo"
        proof -
          from S(2) r have "s \<le> 0" by simp
          with Vi have "if pol = ''nan'' then vs ! i = NaN
              else \<exists>v. piece_emf (tbl ! 0) d [x] = Inr [v] \<and> vs ! i = Fin v" by blast
          with pv[OF p0, of x] show ?thesis by (cases "pol = ''nan''") auto
        qed
        have three: "vs ! i = (if pol = ''nan'' then NaN
                                 else Fin (polyval (polyder_iter (nat d) (coefs (last tbl))) x))"
          if r: "hi < x"
        proof -
          from S(3) r hi' have "int (length tbl) < s" by simp
          with Vi have "if pol = ''nan'' then vs ! i = NaN
              else \<exists>v. piece_emf (last tbl) d [x] = Inr [v] \<and> vs ! i = Fin v" by blast
          with pv[OF pl, of x] show ?thesis by (cases "pol = ''nan''") auto
        qed
        from one two three show ?thesis unfolding x_def by blast
      qed
      from call len elem show ?thesis by blast
    qed
    from a False have A: ?A by simp
    have B: "?H \<longrightarrow> ?C"
    proof
      assume ?H
      then have "pol \<noteq> ''raise'' \<or> (\<forall>t\<in>set T. lo \<le> t \<and> t \<le> hi)" ..
      then show ?C by (rule b)
    qed
    from A B show ?thesis ..
  qed
qed

theorem derivative_above_3_fails_iff_gaussian_witness:
  "PGPF_init ex_quartic_table Celsius MilliVolt ''example'' ''ITS-90'' = Inr ex_quartic_func
   \<and> minT ex_quartic_func = Inr 0 \<and> maxT ex_quartic_func = Inr 2
   \<and> (3::int) < 4 \<and> ''raise'' \<in> set [''raise'', ''nan'', ''extrapolate'']
   \<and> (\<exists>vs. PGPF_call ex_quartic_func [1] 4 ''raise'' = Inr vs \<and> length vs = 1
          \<and> vs ! 0 = Fin 24)
   \<and> PGPF_init ex_gauss_table Celsius MilliVolt ''example'' ''ITS-90'' = Inr ex_gauss_func
   \<and> PGPF_call ex_gauss_func [1 / 2] 4 ''nan'' = Inl UnsupportedDerivative"
proof -
  have d: "(3::int) < 4" by simp
  have nog: "\<forall>p\<in>set ex_quartic_table. ec p = None" by (simp add: ex_quartic_table_def)
  have inr: "\<forall>t\<in>set [1::real]. 0 \<le> t \<and> t \<le> 2" by simp
  have H: "(\<forall>p\<in>set ex_quartic_table. ec p = None)
            \<and> (''raise'' \<noteq> ''raise'' \<or> (\<forall>t\<in>set [1::real]. 0 \<le> t \<and> t \<le> 2))"
    using nog inr by simp
  from derivative_above_3_fails_iff_gaussian[OF ex_quartic_func_init ex_quartic_func_range d
      policy_raise, where T = "[1]", THEN conjunct2, rule_format, OF H]
  obtain vs where call: "PGPF_call ex_quartic_func [1] 4 ''raise'' = Inr vs"
    and len: "length vs = length [1::real]"
    and el: "\<forall>i<length [1::real].
                    (0 \<le> [1::real] ! i \<and> [1::real] ! i \<le> 2 \<longrightarrow>
                       (\<exists>k<length ex_quartic_table. tmin (ex_quartic_table ! k) \<le> [1] ! i
                          \<and> [1] ! i \<le> tmax (ex_quartic_table ! k)
                          \<and> (\<forall>j<k. tmax (ex_quartic_table ! j) < [1] ! i)
                          \<and> vs ! i = Fin (polyval (polyder_iter (nat 4)
                                              (coefs (ex_quartic_table ! k))) ([1] ! i))))"
    by auto
  from el[rule_format, of 0] obtain k where k: "k < length ex_quartic_table"
    and v: "vs ! 0 = Fin (polyval (polyder_iter (nat 4) (coefs (ex_quartic_table ! k))) 1)"
    by auto
  from k have "k = 0" by (simp add: ex_quartic_table_def)
  with v have v24: "vs ! 0 = Fin 24"
    by (simp add: ex_quartic_table_def polyval_def polyder_step_def numeral_eq_Suc upt_rec)
  from call len v24 have q: "\<exists>vs. PGPF_call ex_quartic_func [1] 4 ''raise'' = Inr vs
      \<and> length vs = 1 \<and> vs ! 0 = Fin 24" by simp
  have g: "\<exists>p\<in>set ex_gauss_table. ec p \<noteq> None" by (simp add: ex_gauss_table_def)
  note r = derivative_above_3_fails_iff_gaussian[OF ex_gauss_func_init ex_gauss_func_range d
      policy_nan, where T = "[1 / 2]", THEN conjunct1, THEN iffD2, OF g]
  show ?thesis
    by (intro conjI ex_quartic_func_init ex_quartic_func_range d policy_raise q
          ex_gauss_func_init r)
qed

text \<open>
  The claim as stated fails for a table without a Gaussian term: there the fourth
  derivative of the example table at 1/2 is returned, and it is 0.
\<close>

theorem derivative_4_without_gaussian_returns:
  "PGPF_init ex_table Celsius MilliVolt ''example'' ''ITS-90'' = Inr ex_func
   \<and> minT ex_func = Inr 0 \<and> maxT ex_func = Inr 3
   \<and> PGPF_call ex_func [1 / 2] 4 ''raise'' = Inr [Fin 0]"
proof -
  have a: "minT ex_func = Inr 0" by (simp add: minT_def ex_func_def ex_table_def)
  have b: "maxT ex_func = Inr 3" by (simp add: maxT_def ex_func_def ex_table_def)
  have c: "PGPF_call ex_func [1 / 2] 4 ''raise'' = Inr [Fin 0]"
    by (simp add: eval_call ex_func_def ex_table_def)
  show ?thesis by (intro conjI ex_func_init a b c)
qed

section \<open>The policy "raise"\<close>

text \<open>
  Claim C5, as amended. For a table that passed the constructor, and a derivative order
  under which the loop over the segments does not raise (at least 0, and at most 3 unless
  no segment has a Gaussian term), the call under the policy "raise" fails with the
  out-of-range error exactly when some input is strictly below the first minimum or
  strictly above the last maximum; the error then carries the inputs below the range and
  the inputs above it, each in input order and \<^verbatim>\<open>None\<close> when there is none; and when no
  input is out of range the call returns an array.
\<close>

theorem raise_policy_out_of_range:
  assumes init: "PGPF_init tbl Tu Vu src cal = Inr self"
    and lo: "minT self = Inr lo" and hi: "maxT self = Inr hi"
    and d0: "0 \<le> d" and d3: "d \<le> 3 \<or> (\<forall>p\<in>set tbl. ec p = None)"
  shows "((\<exists>us os. PGPF_call self T d ''raise'' = Inl (OutOfRange us os))
            = (\<exists>t\<in>set T. t < lo \<or> hi < t))
       \<and> ((\<exists>t\<in>set T. t < lo \<or> hi < t) \<longrightarrow>
            PGPF_call self T d ''raise'' =
              Inl (OutOfRange (if filter (\<lambda>t. t < lo) T = [] then None
                               else Some (filter (\<lambda>t. t < lo) T))
                              (if filter (\<lambda>t. hi < t) T = [] then None
                               else Some (filter (\<lambda>t. hi < t) T))))
       \<and> (\<not> (\<exists>t\<in>set T. t < lo \<or> hi < t) \<longrightarrow> (\<exists>vs. PGPF_call self T d ''raise'' = Inr vs))"
proof -
  from PGPF_init_Inr[OF init] have t: "table self = tbl" by simp
  let ?st = "(map (\<lambda>t. if lo \<le> t then 1 else 0) T, [None])"
  from table_loop_supported[OF d0 d3, of T ?st] t obtain sel ch
    where loop: "table_loop (table self) d T ?st = Inr (sel, ch)" by auto
  note R = PGPF_call_raise[OF init lo hi loop]
  show ?thesis
  proof (cases "\<exists>t\<in>set T. t < lo \<or> hi < t")
    case True
    from R(1)[OF True] True show ?thesis by simp
  next
    case False
    from R(2)[OF False] False show ?thesis by auto
  qed
qed

theorem raise_policy_out_of_range_witness:
  "PGPF_init ex_table Celsius MilliVolt ''example'' ''ITS-90'' = Inr ex_func
   \<and> minT ex_func = Inr 0 \<and> maxT ex_func = Inr 3
   \<and> PGPF_call ex_func [- 1, 0, 1, 3, 4, 5] 2 ''raise'' = Inl (OutOfRange (Some [- 1]) (Some [4, 5]))"
proof -
  have a: "minT ex_func = Inr 0" by (simp add: minT_def ex_func_def ex_table_def)
  have b: "maxT ex_func = Inr 3" by (simp add: maxT_def ex_func_def ex_table_def)
  have d0: "(0::int) \<le> 2" by simp
  have d3: "(2::int) \<le> 3 \<or> (\<forall>p\<in>set ex_table. ec p = None)" by simp
  have out: "\<exists>t\<in>set [- 1, 0, 1, 3, 4, 5::real]. t < 0 \<or> 3 < t" by simp
  from raise_policy_out_of_range[OF ex_func_init a b d0 d3, of "[- 1, 0, 1, 3, 4, 5]",
      THEN conjunct2, THEN conjunct1, rule_format, OF out]
  have c: "PGPF_call ex_func [- 1, 0, 1, 3, 4, 5] 2 ''raise'' = Inl (OutOfRange (Some [- 1]) (Some [4, 5]))"
    by simp
  show ?thesis by (intro conjI ex_func_init a b c)
qed

text \<open>
  The claim as stated fails when the loop raises first: with a Gaussian segment and
  derivative order 4, an input below the range gives the unsupported-derivative error and
  not the out-of-range error.
\<close>

theorem unsupported_derivative_precedes_range_check:
  "PGPF_init ex_gauss_table Celsius MilliVolt ''example'' ''ITS-90'' = Inr ex_gauss_func
   \<and> minT ex_gauss_func = Inr 0 \<and> maxT ex_gauss_func = Inr 1
   \<and> PGPF_call ex_gauss_func [- 5] 4 ''raise'' = Inl UnsupportedDerivative"
proof -
  have a: "minT ex_gauss_func = Inr 0" by (simp add: minT_def ex_gauss_func_def ex_gauss_table_def)
  have b: "maxT ex_gauss_func = Inr 1" by (simp add: maxT_def ex_gauss_func_def ex_gauss_table_def)
  have c: "PGPF_call ex_gauss_func [- 5] 4 ''raise'' = Inl UnsupportedDerivative"
    by (simp add: eval_call ex_gauss_func_def ex_gauss_table_def)
  show ?thesis by (intro conjI ex_gauss_func_init a b c)
qed

section \<open>Derivatives through the facade\<close>

text \<open>
  Claim C7. For a facade over a constructed table, every unit system, every derivative
  order from 1 to 3, every valid policy and every array of temperatures that are in range
  after conversion to Celsius: the underlying call on the converted temperatures returns
  an array, the forward method returns that array with every element multiplied by the
  conversion multiplier of the unit raised to the derivative order, and the result is the
  same for every reference temperature.
\<close>

theorem EmfForward_derivative_scaled:
  assumes init: "PGPF_init tbl Tu Vu src cal = Inr fn"
    and tr: "TR_init fn ty co = Inr self"
    and lo: "minT fn = Inr lo" and hi: "maxT fn = Inr hi"
    and d1: "1 \<le> d" and d3: "d \<le> 3"
    and pol: "pol \<in> set [''raise'', ''nan'', ''extrapolate'']"
    and inr: "\<forall>t\<in>set T. lo \<le> affine (Tunits_mat_C_from u) t
                         \<and> affine (Tunits_mat_C_from u) t \<le> hi"
  shows "\<exists>vs. PGPF_call fn (map (affine (Tunits_mat_C_from u)) T) d pol = Inr vs
            \<and> length vs = length T
            \<and> EmfForward u self T Tref d pol =
                Inr (map (\<lambda>v. fmul v (Fin (fst (row0 (Tunits_mat_C_from u)) ^ nat d))) vs)
            \<and> EmfForward u self T Tref' d pol = EmfForward u self T Tref d pol"
proof -
  from d1 have d0: "0 \<le> d" and dn: "d \<noteq> 0" by simp_all
  from d3 have d3': "d \<le> 3 \<or> (\<forall>p\<in>set tbl. ec p = None)" by simp
  from PGPF_call_in_range[OF init lo hi d0 d3' pol] obtain g where
    g: "\<forall>T. (\<forall>t\<in>set T. lo \<le> t \<and> t \<le> hi) \<longrightarrow>
               PGPF_call fn T d pol = Inr (map (\<lambda>t. Fin (g t)) T)" by blast
  let ?C = "map (affine (Tunits_mat_C_from u)) T"
  define vs where "vs = map (\<lambda>t. Fin (g t)) ?C"
  from inr have "\<forall>t\<in>set ?C. lo \<le> t \<and> t \<le> hi" by simp
  with g have c: "PGPF_call fn ?C d pol = Inr vs" unfolding vs_def by blast
  have l: "length vs = length T" by (simp add: vs_def)
  have pw: "fst (row0 (Tunits_mat_C_from u)) powi d = fst (row0 (Tunits_mat_C_from u)) ^ nat d"
    using d0 by (simp add: power_int_def)
  have e: "EmfForward u self T R d pol =
                Inr (map (\<lambda>v. fmul v (Fin (fst (row0 (Tunits_mat_C_from u)) ^ nat d))) vs)" for R
    unfolding EmfForward_unfold[OF tr] c using dn by (simp add: pw)
  from c l e[of Tref] e[of Tref'] show ?thesis by simp
qed

theorem EmfForward_derivative_scaled_witness:
  "PGPF_init ex_table Celsius MilliVolt ''example'' ''ITS-90'' = Inr ex_func
   \<and> TR_init ex_func ''Type X'' ''A - B'' = Inr ex_tc
   \<and> minT ex_func = Inr 0 \<and> maxT ex_func = Inr 3
   \<and> PGPF_call ex_func (map (affine (Tunits_mat_C_from Fahrenheit)) [33.8]) 1 ''raise''
       = Inr [Fin 4]
   \<and> EmfForward Fahrenheit ex_tc [33.8] 32 1 ''raise'' = Inr [Fin (20 / 9)]
   \<and> EmfForward Fahrenheit ex_tc [33.8] 212 1 ''raise''
       = EmfForward Fahrenheit ex_tc [33.8] 32 1 ''raise''"
proof -
  have d1: "(1::int) \<le> 1" and d3: "(1::int) \<le> 3" by simp_all
  have inr: "\<forall>t\<in>set [33.8::real]. 0 \<le> affine (Tunits_mat_C_from Fahrenheit) t
                         \<and> affine (Tunits_mat_C_from Fahrenheit) t \<le> 3"
    by (simp add: affine_def row0_def)
  from EmfForward_derivative_scaled[OF ex_func_init ex_tc_init ex_func_range d1 d3 policy_raise inr,
      of 32 212]
  obtain vs where
    c: "PGPF_call ex_func (map (affine (Tunits_mat_C_from Fahrenheit)) [33.8]) 1 ''raise'' = Inr vs"
    and e: "EmfForward Fahrenheit ex_tc [33.8] 32 1 ''raise'' =
              Inr (map (\<lambda>v. fmul v (Fin (fst (row0 (Tunits_mat_C_from Fahrenheit)) ^ nat 1))) vs)"
    and i: "EmfForward Fahrenheit ex_tc [33.8] 212 1 ''raise''
              = EmfForward Fahrenheit ex_tc [33.8] 32 1 ''raise''"
    by blast
  have ev: "PGPF_call ex_func (map (affine (Tunits_mat_C_from Fahrenheit)) [33.8]) 1 ''raise''
              = Inr [Fin 4]"
    by (simp add: eval_call affine_def row0_def ex_func_def ex_table_def)
  with c have vs: "vs = [Fin 4]" by simp
  from e have e': "EmfForward Fahrenheit ex_tc [33.8] 32 1 ''raise'' = Inr [Fin (20 / 9)]"
    unfolding vs by (simp add: row0_def)
  show ?thesis by (intro conjI ex_func_init ex_tc_init ex_func_range ev e' i)
qed

section \<open>Cold-junction compensation\<close>

text \<open>
  Claim C6, as amended. For a facade over a constructed table whose range contains the
  ice point (0 degrees Celsius), every unit system, every valid policy, derivative order
  0, and temperatures \<open>T\<close> (an array) and \<open>X\<close> that are in range after conversion: the
  three forward calls return, and the EMF of \<open>T\<close> against the reference \<open>X\<close> is the EMF
  of \<open>T\<close> against the default reference minus the EMF of \<open>X\<close> against the default
  reference, exactly.
\<close>

theorem cold_junction_compensation:
  assumes init: "PGPF_init tbl Tu Vu src cal = Inr fn"
    and tr: "TR_init fn ty co = Inr self"
    and lo: "minT fn = Inr lo" and hi: "maxT fn = Inr hi"
    and pol: "pol \<in> set [''raise'', ''nan'', ''extrapolate'']"
    and Tin: "\<forall>t\<in>set T. lo \<le> affine (Tunits_mat_C_from u) t
                         \<and> affine (Tunits_mat_C_from u) t \<le> hi"
    and Xin: "lo \<le> affine (Tunits_mat_C_from u) X" "affine (Tunits_mat_C_from u) X \<le> hi"
    and ice: "lo \<le> 0" "0 \<le> hi"
  shows "\<exists>a b c. EmfForward u self T X 0 pol = Inr (map Fin a)
            \<and> EmfForward u self T (Tref_default u) 0 pol = Inr (map Fin b)
            \<and> EmfForward u self [X] (Tref_default u) 0 pol = Inr [Fin c]
            \<and> a = map (\<lambda>y. y - c) b"
proof -
  have d0: "(0::int) \<le> 0" and d3: "(0::int) \<le> 3 \<or> (\<forall>p\<in>set tbl. ec p = None)" by simp_all
  from PGPF_call_in_range[OF init lo hi d0 d3 pol] obtain g where
    g: "\<forall>T. (\<forall>t\<in>set T. lo \<le> t \<and> t \<le> hi) \<longrightarrow>
               PGPF_call fn T 0 pol = Inr (map (\<lambda>t. Fin (g t)) T)" by blast
  let ?cv = "affine (Tunits_mat_C_from u)"
  from Tin have "\<forall>t\<in>set (map ?cv T). lo \<le> t \<and> t \<le> hi" by simp
  with g have cT: "PGPF_call fn (map ?cv T) 0 pol = Inr (map (\<lambda>t. Fin (g t)) (map ?cv T))"
    by blast
  from Xin have "\<forall>t\<in>set (map ?cv [X]). lo \<le> t \<and> t \<le> hi" by simp
  with g have cX: "PGPF_call fn (map ?cv [X]) 0 pol = Inr (map (\<lambda>t. Fin (g t)) (map ?cv [X]))"
    by blast
  have rX: "PGPF_call1 fn (?cv X) 0 pol = Inr (Fin (g (?cv X)))"
    by (rule PGPF_call1_in_range[OF g Xin])
  have r0: "PGPF_call1 fn (?cv (Tref_default u)) 0 pol = Inr (Fin (g 0))"
    unfolding Tref_default_ice by (rule PGPF_call1_in_range[OF g ice])
  define a where "a = map (\<lambda>t. g (?cv t) - g (?cv X)) T"
  define b where "b = map (\<lambda>t. g (?cv t) - g 0) T"
  define c where "c = g (?cv X) - g 0"
  have 1: "EmfForward u self T X 0 pol = Inr (map Fin a)"
    unfolding EmfForward_unfold[OF tr] cT rX by (simp add: a_def comp_def)
  have 2: "EmfForward u self T (Tref_default u) 0 pol = Inr (map Fin b)"
    unfolding EmfForward_unfold[OF tr] cT r0 by (simp add: b_def comp_def)
  have 3: "EmfForward u self [X] (Tref_default u) 0 pol = Inr [Fin c]"
    unfolding EmfForward_unfold[OF tr] cX r0 by (simp add: c_def)
  have 4: "a = map (\<lambda>y. y - c) b" by (simp add: a_def b_def c_def comp_def)
  from 1 2 3 4 show ?thesis by blast
qed

theorem cold_junction_compensation_witness:
  "PGPF_init ex_table Celsius MilliVolt ''example'' ''ITS-90'' = Inr ex_func
   \<and> TR_init ex_func ''Type X'' ''A - B'' = Inr ex_tc
   \<and> minT ex_func = Inr 0 \<and> maxT ex_func = Inr 3
   \<and> (\<exists>a b c. EmfForward Fahrenheit ex_tc [33.8, 35.6] 32.9 0 ''raise'' = Inr (map Fin a)
            \<and> EmfForward Fahrenheit ex_tc [33.8, 35.6] (Tref_default Fahrenheit) 0 ''raise''
                = Inr (map Fin b)
            \<and> EmfForward Fahrenheit ex_tc [32.9] (Tref_default Fahrenheit) 0 ''raise''
                = Inr [Fin c]
            \<and> a = map (\<lambda>y. y - c) b)
   \<and> EmfForward Fahrenheit ex_tc [33.8, 35.6] (Tref_default Fahrenheit) 0 ''raise''
        = Inr [Fin 3, Fin (- 1)]
   \<and> EmfForward Fahrenheit ex_tc [32.9] (Tref_default Fahrenheit) 0 ''raise'' = Inr [Fin 1.25]
   \<and> EmfForward Fahrenheit ex_tc [33.8, 35.6] 32.9 0 ''raise'' = Inr [Fin 1.75, Fin (- 2.25)]"
proof -
  have Tin: "\<forall>t\<in>set [33.8, 35.6::real]. 0 \<le> affine (Tunits_mat_C_from Fahrenheit) t
                         \<and> affine (Tunits_mat_C_from Fahrenheit) t \<le> 3"
    by (simp add: affine_def row0_def)
  have Xin: "0 \<le> affine (Tunits_mat_C_from Fahrenheit) 32.9"
    "affine (Tunits_mat_C_from Fahrenheit) 32.9 \<le> 3"
    by (simp_all add: affine_def row0_def)
  have ice: "(0::real) \<le> 0" "(0::real) \<le> 3" by simp_all
  note inst = cold_junction_compensation[OF ex_func_init ex_tc_init ex_func_range policy_raise
      Tin Xin ice]
  have b: "EmfForward Fahrenheit ex_tc [33.8, 35.6] (Tref_default Fahrenheit) 0 ''raise''
        = Inr [Fin 3, Fin (- 1)]"
    by (simp add: emf_mVF_def emf_mV_unit_def PGPF_call1_def eval_call row0_def ex_tc_def
          ex_func_def ex_table_def)
  have c: "EmfForward Fahrenheit ex_tc [32.9] (Tref_default Fahrenheit) 0 ''raise'' = Inr [Fin 1.25]"
    by (simp add: emf_mVF_def emf_mV_unit_def PGPF_call1_def eval_call row0_def ex_tc_def
          ex_func_def ex_table_def)
  from inst b c have a: "EmfForward Fahrenheit ex_tc [33.8, 35.6] 32.9 0 ''raise''
        = Inr [Fin 1.75, Fin (- 2.25)]"
    by auto
  show ?thesis by (intro conjI ex_func_init ex_tc_init ex_func_range inst a b c)
qed

text \<open>
  The claim as stated fails for a facade whose range does not contain the ice point: on
  the table with the single range from 10 to 20, the EMF of 15 against the reference 12
  is 3, while both calls against the default reference raise the out-of-range error for
  the reference temperature.
\<close>

theorem ice_point_outside_range:
  "PGPF_init ex_hot_table Celsius MilliVolt ''example'' ''ITS-90'' = Inr ex_hot_func
   \<and> TR_init ex_hot_func ''Type Y'' ''A - B'' = Inr ex_hot_tc
   \<and> minT ex_hot_func = Inr 10 \<and> maxT ex_hot_func = Inr 20
   \<and> EmfForward Celsius ex_hot_tc [15] 12 0 ''raise'' = Inr [Fin 3]
   \<and> EmfForward Celsius ex_hot_tc [15] (Tref_default Celsius) 0 ''raise''
        = Inl (OutOfRange (Some [0]) None)
   \<and> EmfForward Celsius ex_hot_tc [12] (Tref_default Celsius) 0 ''raise''
        = Inl (OutOfRange (Some [0]) None)"
proof -
  have r: "minT ex_hot_func = Inr 10" "maxT ex_hot_func = Inr 20"
    by (simp_all add: minT_def maxT_def ex_hot_func_def ex_hot_table_def)
  have a: "EmfForward Celsius ex_hot_tc [15] 12 0 ''raise'' = Inr [Fin 3]"
    by (simp add: emf_mVC_def PGPF_call1_def eval_call ex_hot_tc_def ex_hot_func_def
          ex_hot_table_def)
  have b: "EmfForward Celsius ex_hot_tc [15] (Tref_default Celsius) 0 ''raise''
        = Inl (OutOfRange (Some [0]) None)"
    by (simp add: emf_mVC_def PGPF_call1_def eval_call ex_hot_tc_def ex_hot_func_def
          ex_hot_table_def)
  have c: "EmfForward Celsius ex_hot_tc [12] (Tref_default Celsius) 0 ''raise''
        = Inl (OutOfRange (Some [0]) None)"
    by (simp add: emf_mVC_def PGPF_call1_def eval_call ex_hot_tc_def ex_hot_func_def
          ex_hot_table_def)
  show ?thesis by (intro conjI ex_hot_func_init ex_hot_tc_init r a b c)
qed

section \<open>The inverse lookup\<close>

text \<open>
  Claim C1. For a function with a non-empty table, a target value, any start guess (given
  or not), any tolerance and any pair of root-finders: if the inverse returns a
  temperature \<open>T\<close>, then the function evaluated at \<open>T\<close> under the default policy
  differs from the target by at most the tolerance. Without SciPy the import error is
  raised. When the inverse returns no temperature, an error reaches the caller: the
  voltage-not-in-range error if Brent's method reports equal signs at the ends of the
  range, any other error of Brent's method unchanged, and the did-not-converge error if
  Brent's method returns a temperature whose residual is not within the tolerance.
\<close>

theorem inverse_residual_or_error:
  assumes lo: "minT self = Inr lo" and hi: "maxT self = Inr hi"
  shows "(\<forall>T. PGPF_inverse scipy self (Fin V) Tstart Vtol = Inr T \<longrightarrow>
            (\<exists>v. PGPF_call1 self T 0 ''raise'' = Inr (Fin v) \<and> \<bar>v - V\<bar> \<le> Vtol))
       \<and> (scipy = None \<longrightarrow> PGPF_inverse scipy self (Fin V) Tstart Vtol = Inl ImportError)
       \<and> (\<forall>optimize. scipy = Some optimize
              \<and> (\<forall>T. PGPF_inverse scipy self (Fin V) Tstart Vtol \<noteq> Inr T) \<longrightarrow>
            (brentq optimize (fun0 self (Fin V)) lo hi = Inl SameSigns \<longrightarrow>
               PGPF_inverse scipy self (Fin V) Tstart Vtol = Inl VoltageNotInRange)
          \<and> (\<forall>e. brentq optimize (fun0 self (Fin V)) lo hi = Inl e \<and> e \<noteq> SameSigns \<longrightarrow>
               PGPF_inverse scipy self (Fin V) Tstart Vtol = Inl e)
          \<and> (\<forall>T'. brentq optimize (fun0 self (Fin V)) lo hi = Inr T' \<longrightarrow>
               PGPF_inverse scipy self (Fin V) Tstart Vtol = Inl DidNotConverge))"
proof (cases scipy)
  case None
  then show ?thesis by (simp add: PGPF_inverse_def)
next
  case (Some optimize)
  from PGPF_inverse_stages[OF lo hi, of optimize "Fin V" Tstart Vtol] obtain Ts where
    inv: "PGPF_inverse (Some optimize) self (Fin V) Tstart Vtol =
           (case newton_try optimize self (Fin V) Ts Vtol of
              Inr T \<Rightarrow> Inr T
            | Inl e \<Rightarrow> brentq_except optimize self (Fin V) Vtol)" by blast
  note B = brentq_except_cases[OF lo hi, of optimize V Vtol]
  show ?thesis
  proof (cases "newton_try optimize self (Fin V) Ts Vtol")
    case (Inr T)
    with inv have r: "PGPF_inverse (Some optimize) self (Fin V) Tstart Vtol = Inr T" by simp
    from newton_try_Inr[OF lo Inr] r Some show ?thesis by auto
  next
    case (Inl e)
    with inv have r: "PGPF_inverse (Some optimize) self (Fin V) Tstart Vtol
                        = brentq_except optimize self (Fin V) Vtol" by simp
    show ?thesis
    proof (cases "brentq optimize (fun0 self (Fin V)) lo hi")
      case bl: (Inl e')
      with B have "brentq_except optimize self (Fin V) Vtol =
          (if e' = SameSigns then Inl VoltageNotInRange else Inl e')" by auto
      with r Some bl show ?thesis by auto
    next
      case br: (Inr T')
      with B have "brentq_except optimize self (Fin V) Vtol = Inl DidNotConverge
            \<or> brentq_except optimize self (Fin V) Vtol = Inr T'
              \<and> (\<exists>v. PGPF_call1 self T' 0 ''raise'' = Inr (Fin v) \<and> \<bar>v - V\<bar> \<le> Vtol)" by blast
      with r Some br show ?thesis by auto
    qed
  qed
qed

theorem inverse_residual_or_error_witness:
  "minT ex_func = Inr 0 \<and> maxT ex_func = Inr 3
   \<and> PGPF_inverse (Some ex_optimize) ex_func (Fin 4.25) (Some 0.5) (1 / 1000000) = Inr 0.5
   \<and> (\<exists>v. PGPF_call1 ex_func 0.5 0 ''raise'' = Inr (Fin v) \<and> \<bar>v - 4.25\<bar> \<le> 1 / 1000000)
   \<and> PGPF_inverse (Some ex_optimize) ex_func (Fin 100) (Some 0.5) (1 / 1000000)
        = Inl DidNotConverge
   \<and> PGPF_inverse (Some ex_optimize_failing) ex_func (Fin 100) None (1 / 1000000)
        = Inl VoltageNotInRange
   \<and> PGPF_inverse None ex_func (Fin 4.25) (Some 0.5) (1 / 1000000) = Inl ImportError"
proof -
  have a: "PGPF_inverse (Some ex_optimize) ex_func (Fin 4.25) (Some 0.5) (1 / 1000000) = Inr 0.5"
    by (simp add: eval_inverse eval_call ex_func_def ex_table_def)
  note r = inverse_residual_or_error[OF ex_func_range, where scipy = "Some ex_optimize"
      and V = "4.25" and Tstart = "Some 0.5" and Vtol = "1 / 1000000",
      THEN conjunct1, rule_format, OF a]
  have b: "PGPF_inverse (Some ex_optimize) ex_func (Fin 100) (Some 0.5) (1 / 1000000)
        = Inl DidNotConverge"
    by (simp add: eval_inverse eval_call ex_func_def ex_table_def)
  have c: "PGPF_inverse (Some ex_optimize_failing) ex_func (Fin 100) None (1 / 1000000)
        = Inl VoltageNotInRange"
    by (simp add: eval_inverse eval_call ex_func_def ex_table_def)
  have d: "PGPF_inverse None ex_func (Fin 4.25) (Some 0.5) (1 / 1000000) = Inl ImportError"
    by (simp add: PGPF_inverse_def)
  show ?thesis by (intro conjI ex_func_range a r b c d)
qed

section \<open>The inverse through the facade\<close>

text \<open>
  Claim C4 says that a start guess is converted and handed to the root-finder in every
  unit system. The Celsius method does not do this: on the example facade (constructed
  in \<open>ex_tc_init\<close>) and with a start guess it raises
  \<^verbatim>\<open>NameError\<close> as soon as the reference EMF has been computed, while the Kelvin and the
  Fahrenheit method, given the same guess in their unit, convert it, pass it on and
  return the temperature in their unit.
\<close>

theorem inverse_CmV_start_guess_raises:
  "inverse_CmV (Some ex_optimize) ex_tc 1.25 0 (Some 0.5) (1 / 1000000)
        = Inl (NameError ''mul'')
   \<and> EmfInverse Celsius (Some ex_optimize) ex_tc 1.25 (Tref_default Celsius) (Some 0.5)
        (1 / 1000000) = Inl (NameError ''mul'')
   \<and> EmfInverse Kelvin (Some ex_optimize) ex_tc 1.25 (Tref_default Kelvin) (Some 273.65)
        (1 / 1000000) = Inr 273.65
   \<and> EmfInverse Fahrenheit (Some ex_optimize) ex_tc 1.25 (Tref_default Fahrenheit) (Some 32.9)
        (1 / 1000000) = Inr 32.9"
proof -
  have a: "inverse_CmV (Some ex_optimize) ex_tc 1.25 0 (Some 0.5) (1 / 1000000)
        = Inl (NameError ''mul'')"
    by (simp add: inverse_CmV_def PGPF_call1_def eval_call ex_tc_def ex_func_def ex_table_def)
  have b: "EmfInverse Celsius (Some ex_optimize) ex_tc 1.25 (Tref_default Celsius) (Some 0.5)
        (1 / 1000000) = Inl (NameError ''mul'')"
    using a by simp
  have c: "EmfInverse Kelvin (Some ex_optimize) ex_tc 1.25 (Tref_default Kelvin) (Some 273.65)
        (1 / 1000000) = Inr 273.65"
    by (simp add: inverse_KmV_def inverse_unit_mV_def eval_inverse eval_call row0_def
          ex_tc_def ex_func_def ex_table_def)
  have d: "EmfInverse Fahrenheit (Some ex_optimize) ex_tc 1.25 (Tref_default Fahrenheit)
        (Some 32.9) (1 / 1000000) = Inr 32.9"
    by (simp add: inverse_FmV_def inverse_unit_mV_def eval_inverse eval_call row0_def
          ex_tc_def ex_func_def ex_table_def)
  show ?thesis by (intro conjI a b c d)
qed

end
